theory Spec2Isabelle
  imports Complex_Main "HOL-Library.Log_Nat"
begin

section \<open>Python values used by \<open>etl_pipeline.py\<close>\<close>

subsection \<open>Floats\<close>

text \<open>
  \<open>extract\<close> builds every amount with \<open>float(row['amount'])\<close>, so an amount is an
  IEEE binary64 value: a signed finite magnitude (the sign bit is kept apart, there is
  a negative zero), an infinity or a NaN (\<open>float('nan')\<close> and \<open>float('inf')\<close> parse).
  A finite magnitude is the rational number the bit pattern denotes.
\<close>

datatype pyfloat = Finite bool rat | Infinity bool | NaN

datatype error = KeyError | ValueError | TypeError | ZeroDivisionError | OverflowError

definition pow2 :: "int \<Rightarrow> rat" where
  "pow2 k = (if 0 \<le> k then 2 ^ nat k else 1 / 2 ^ nat (- k))"

definition round_half_even :: "rat \<Rightarrow> int" where
  "round_half_even q =
     (let n = \<lfloor>q\<rfloor>; r = q - of_int n
      in if r < 1 / 2 then n
         else if 1 / 2 < r then n + 1
         else if even n then n else n + 1)"

text \<open>The binary exponent of a positive rational: \<open>2 ^ k \<le> q < 2 ^ (k + 1)\<close>.\<close>

definition ilog2 :: "rat \<Rightarrow> int" where
  "ilog2 q =
     (let (a, b) = quotient_of q;
          d = int (floorlog 2 (nat a)) - int (floorlog 2 (nat b))
      in if pow2 d \<le> q then d else d - 1)"

text \<open>
  Rounding of a non-negative exact result to binary64, to nearest with ties to even:
  53 significant bits, least exponent \<open>-1074\<close> (subnormals), and \<open>None\<close> when the
  rounded value leaves the finite range (the operation then yields an infinity).
\<close>

definition round_binary64 :: "rat \<Rightarrow> rat option" where
  "round_binary64 q =
     (if q = 0 then Some 0
      else let e = max (ilog2 q - 52) (- 1074);
               r = of_int (round_half_even (q / pow2 e)) * pow2 e
           in if r < pow2 1024 then Some r else None)"

definition signed :: "bool \<Rightarrow> rat \<Rightarrow> rat" where
  "signed s q = (if s then - q else q)"

text \<open>Python's \<open>x + y\<close> on floats: it never raises, an overflow gives an infinity.\<close>

fun fadd :: "pyfloat \<Rightarrow> pyfloat \<Rightarrow> pyfloat" where
  "fadd NaN y = NaN"
| "fadd x NaN = NaN"
| "fadd (Infinity s) (Infinity s') = (if s = s' then Infinity s else NaN)"
| "fadd (Infinity s) (Finite s' q') = Infinity s"
| "fadd (Finite s q) (Infinity s') = Infinity s'"
| "fadd (Finite s q) (Finite s' q') =
     (let v = signed s q + signed s' q'
      in if v = 0 then Finite (s \<and> s') 0
         else (case round_binary64 \<bar>v\<bar> of
                 Some r \<Rightarrow> Finite (v < 0) r
               | None \<Rightarrow> Infinity (v < 0)))"

text \<open>
  Python's \<open>x / n\<close> for a float \<open>x\<close> and the int \<open>n = len(transformed)\<close>. The int is
  converted to a float first, which is exact below \<open>2 ^ 53\<close>; a list is far shorter,
  so the quotient is the exact one, rounded once. Dividing by zero raises.
\<close>

fun truediv :: "pyfloat \<Rightarrow> nat \<Rightarrow> error + pyfloat" where
  "truediv x 0 = Inl ZeroDivisionError"
| "truediv NaN n = Inr NaN"
| "truediv (Infinity s) n = Inr (Infinity s)"
| "truediv (Finite s q) n =
     (case round_binary64 (q / of_nat n) of
        Some r \<Rightarrow> Inr (Finite s r)
      | None \<Rightarrow> Inr (Infinity s))"

subsection \<open>Decimal text\<close>

definition digit_char :: "nat \<Rightarrow> char" where
  "digit_char d = char_of (48 + d)"

function decimal :: "nat \<Rightarrow> string" where
  "decimal n = (if n < 10 then [digit_char n] else decimal (n div 10) @ [digit_char (n mod 10)])"
  by pat_completeness auto
termination
  by (relation "measure id") auto

declare decimal.simps [simp del]

text \<open>Zero padding to a width, as \<open>%02d\<close> and \<open>%04d\<close> do.\<close>

definition zero_pad :: "nat \<Rightarrow> nat \<Rightarrow> string" where
  "zero_pad w n = replicate (w - length (decimal n)) (CHR ''0'') @ decimal n"

text \<open>
  The format specification \<open>.2f\<close> on a float: the exact binary value rounded to two
  decimals (ties to even), a minus sign exactly when the sign bit is set; \<open>nan\<close> and
  \<open>inf\<close> are written as words.
\<close>

fun format_2f :: "pyfloat \<Rightarrow> string" where
  "format_2f NaN = ''nan''"
| "format_2f (Infinity s) = (if s then ''-inf'' else ''inf'')"
| "format_2f (Finite s q) =
     (let n = nat (round_half_even (q * 100))
      in (if s then ''-'' else '''') @ decimal (n div 100) @ ''.'' @ zero_pad 2 (n mod 100))"


subsection \<open>Timestamps\<close>

text \<open>
  A Python \<open>str\<close> is modelled as a \<open>string\<close> whose characters are the code points below
  256. There \<open>\d\<close> of a regular expression matches the ten ASCII digits, and \<open>\s\<close>
  matches the characters for which \<open>str.isspace\<close> holds.
\<close>

definition is_digit :: "char \<Rightarrow> bool" where
  "is_digit c = (48 \<le> (of_char c :: nat) \<and> (of_char c :: nat) \<le> 57)"

definition digit_val :: "char \<Rightarrow> nat" where
  "digit_val c = of_char c - 48"

definition is_space :: "char \<Rightarrow> bool" where
  "is_space c = ((of_char c :: nat) \<in> {9, 10, 11, 12, 13, 28, 29, 30, 31, 32, 133, 160})"

definition in_range :: "char \<Rightarrow> char \<Rightarrow> char \<Rightarrow> bool" where
  "in_range lo hi c = ((of_char lo :: nat) \<le> of_char c \<and> (of_char c :: nat) \<le> of_char hi)"

text \<open>
  \<open>datetime.strptime\<close> turns the format into a regular expression, matches it at the
  start of the text with \<open>re.match\<close> (alternatives in order, backtracking), demands
  that no text remains, converts each group with \<open>int\<close> and builds the
  \<open>datetime\<close>, whose constructor checks the ranges. The expression of
  \<open>'%Y-%m-%d %H:%M:%S'\<close> is a sequence of groups of alternatives, literal characters
  and one \<open>\s+\<close> (a blank in a format stands for any run of white space). An
  alternative is a sequence of character classes.
\<close>

type_synonym alt = "(char \<Rightarrow> bool) list"

datatype item = Group "alt list" | Lit char | Spaces

fun match_alt :: "alt \<Rightarrow> string \<Rightarrow> (string \<times> string) option" where
  "match_alt [] s = Some ([], s)"
| "match_alt (p # ps) [] = None"
| "match_alt (p # ps) (c # cs) =
     (if p c then (case match_alt ps cs of
                     None \<Rightarrow> None
                   | Some (m, r) \<Rightarrow> Some (c # m, r))
      else None)"

fun first_some :: "'a option list \<Rightarrow> 'a option" where
  "first_some [] = None"
| "first_some (None # xs) = first_some xs"
| "first_some (Some x # xs) = Some x"

text \<open>
  The matcher returns the texts of the groups and the text that remains. A group tries
  its alternatives in order and moves to the next one when the rest of the expression
  fails; \<open>\s+\<close> takes the longest run of white space first and gives characters back.
\<close>

function (sequential) match_items :: "item list \<Rightarrow> string \<Rightarrow> (string list \<times> string) option" where
  "match_items [] s = Some ([], s)"
| "match_items (Lit c # its) s =
     (case s of [] \<Rightarrow> None
      | x # xs \<Rightarrow> if x = c then match_items its xs else None)"
| "match_items (Spaces # its) s =
     first_some (map (\<lambda>k. match_items its (drop k s))
                     (rev [1 ..< Suc (length (takeWhile is_space s))]))"
| "match_items (Group [] # its) s = None"
| "match_items (Group (a # as) # its) s =
     (case match_alt a s of
        None \<Rightarrow> match_items (Group as # its) s
      | Some (m, r) \<Rightarrow>
          (case match_items its r of
             None \<Rightarrow> match_items (Group as # its) s
           | Some (ms, r') \<Rightarrow> Some (m # ms, r')))"
  by pat_completeness auto
termination
  by (relation "measures [\<lambda>(its, s). length its,
                          \<lambda>(its, s). (case its of Group as # _ \<Rightarrow> length as | _ \<Rightarrow> 0)]") auto

definition is_char :: "char \<Rightarrow> char \<Rightarrow> bool" where
  "is_char a c = (c = a)"

text \<open>The groups of \<open>_strptime.TimeRE\<close>, alternatives in the library's order.\<close>

definition re_Y :: item where
  "re_Y = Group [[is_digit, is_digit, is_digit, is_digit]]"

definition re_m :: item where
  "re_m = Group [[is_char CHR ''1'', in_range CHR ''0'' CHR ''2''],
                 [is_char CHR ''0'', in_range CHR ''1'' CHR ''9''],
                 [in_range CHR ''1'' CHR ''9'']]"

definition re_d :: item where
  "re_d = Group [[is_char CHR ''3'', in_range CHR ''0'' CHR ''1''],
                 [in_range CHR ''1'' CHR ''2'', is_digit],
                 [is_char CHR ''0'', in_range CHR ''1'' CHR ''9''],
                 [in_range CHR ''1'' CHR ''9''],
                 [is_char CHR '' '', in_range CHR ''1'' CHR ''9'']]"

definition re_H :: item where
  "re_H = Group [[is_char CHR ''2'', in_range CHR ''0'' CHR ''3''],
                 [in_range CHR ''0'' CHR ''1'', is_digit],
                 [is_digit]]"

definition re_M :: item where
  "re_M = Group [[in_range CHR ''0'' CHR ''5'', is_digit],
                 [is_digit]]"

definition re_S :: item where
  "re_S = Group [[is_char CHR ''6'', in_range CHR ''0'' CHR ''1''],
                 [in_range CHR ''0'' CHR ''5'', is_digit],
                 [is_digit]]"

definition format_regex :: "item list" where
  "format_regex = [re_Y, Lit CHR ''-'', re_m, Lit CHR ''-'', re_d, Spaces,
                   re_H, Lit CHR '':'', re_M, Lit CHR '':'', re_S]"

text \<open>\<open>int\<close> on the text of a group: white space around the digits is dropped.\<close>

definition py_int :: "string \<Rightarrow> nat" where
  "py_int s = foldl (\<lambda>a c. 10 * a + digit_val c) 0 (dropWhile is_space s)"

record datetime =
  year :: nat
  month :: nat
  day :: nat
  hour :: nat
  minute :: nat
  second :: nat

definition is_leap :: "nat \<Rightarrow> bool" where
  "is_leap y = (y mod 4 = 0 \<and> (y mod 100 \<noteq> 0 \<or> y mod 400 = 0))"

definition days_in_month :: "nat \<Rightarrow> nat \<Rightarrow> nat" where
  "days_in_month y m =
     (if m = 2 then (if is_leap y then 29 else 28)
      else if m \<in> {4, 6, 9, 11} then 30 else 31)"

text \<open>The constructor \<open>datetime(year, month, day, hour, minute, second)\<close>.\<close>

definition datetime_new :: "nat \<Rightarrow> nat \<Rightarrow> nat \<Rightarrow> nat \<Rightarrow> nat \<Rightarrow> nat \<Rightarrow> error + datetime" where
  "datetime_new y m d H M S =
     (if 1 \<le> y \<and> y \<le> 9999 \<and> 1 \<le> m \<and> m \<le> 12 \<and> 1 \<le> d \<and> d \<le> days_in_month y m
         \<and> H \<le> 23 \<and> M \<le> 59 \<and> S \<le> 59
      then Inr \<lparr>year = y, month = m, day = d, hour = H, minute = M, second = S\<rparr>
      else Inl ValueError)"

definition strptime :: "string \<Rightarrow> error + datetime" where
  "strptime s =
     (case match_items format_regex s of
        None \<Rightarrow> Inl ValueError
      | Some (gs, rest) \<Rightarrow>
          if rest \<noteq> [] then Inl ValueError
          else (case map py_int gs of
                  [y, m, d, H, M, S] \<Rightarrow> datetime_new y m d H M S
                | _ \<Rightarrow> Inl ValueError))"

text \<open>
  \<open>strftime\<close>, as the library documents it: \<open>%Y\<close> is the year in four digits, \<open>%m\<close>,
  \<open>%d\<close>, \<open>%H\<close>, \<open>%M\<close> and \<open>%S\<close> are zero-padded to two, \<open>%A\<close> is the full name of the
  day in the C locale (the program never changes the locale).
\<close>

definition strftime_date :: "datetime \<Rightarrow> string" where
  "strftime_date dt =
     zero_pad 4 (year dt) @ ''-'' @ zero_pad 2 (month dt) @ ''-'' @ zero_pad 2 (day dt)"

definition strftime_time :: "datetime \<Rightarrow> string" where
  "strftime_time dt =
     zero_pad 2 (hour dt) @ '':'' @ zero_pad 2 (minute dt) @ '':'' @ zero_pad 2 (second dt)"

definition days_before_year :: "nat \<Rightarrow> nat" where
  "days_before_year y = (y - 1) * 365 + (y - 1) div 4 - (y - 1) div 100 + (y - 1) div 400"

definition days_before_month :: "nat \<Rightarrow> nat \<Rightarrow> nat" where
  "days_before_month y m = sum_list (map (days_in_month y) [1 ..< m])"

definition toordinal :: "datetime \<Rightarrow> nat" where
  "toordinal dt = days_before_year (year dt) + days_before_month (year dt) (month dt) + day dt"

definition weekday :: "datetime \<Rightarrow> nat" where
  "weekday dt = (toordinal dt + 6) mod 7"

definition strftime_A :: "datetime \<Rightarrow> string" where
  "strftime_A dt =
     (let w = weekday dt
      in if w = 0 then ''Monday'' else if w = 1 then ''Tuesday''
         else if w = 2 then ''Wednesday'' else if w = 3 then ''Thursday''
         else if w = 4 then ''Friday'' else if w = 5 then ''Saturday'' else ''Sunday'')"


section \<open>The transform stage\<close>

subsection \<open>Records and counters\<close>

text \<open>
  A transaction is a Python \<open>dict\<close> with string keys. A \<open>dict\<close> keeps its keys in the
  order of their first insertion, and an assignment to a key that is present replaces
  the value in place: an association list with distinct keys. The values that
  \<open>extract\<close> stores are texts, one float, and \<open>None\<close> where a row of the file is short.
\<close>

datatype pyval = Str string | Num pyfloat | PyNone

type_synonym 'k dict = "('k \<times> pyval) list"

fun dict_set :: "'k \<Rightarrow> 'v \<Rightarrow> ('k \<times> 'v) list \<Rightarrow> ('k \<times> 'v) list" where
  "dict_set k v [] = [(k, v)]"
| "dict_set k v (p # ps) = (if fst p = k then (k, v) # ps else p # dict_set k v ps)"

definition dict_get :: "('k \<times> 'v) list \<Rightarrow> 'k \<Rightarrow> error + 'v" where
  "dict_get d k = (case map_of d k of None \<Rightarrow> Inl KeyError | Some v \<Rightarrow> Inr v)"

text \<open>
  \<open>counts[k] += 1\<close> on a \<open>defaultdict(int)\<close>: a key that is missing enters with 0
  at the end, then the value is replaced by its successor.
\<close>

definition increment :: "('k \<times> nat) list \<Rightarrow> 'k \<Rightarrow> ('k \<times> nat) list" where
  "increment counts k =
     dict_set k ((case map_of counts k of None \<Rightarrow> 0 | Some c \<Rightarrow> c) + 1) counts"

text \<open>
  A number of the summary is the int that \<open>total_amount = 0\<close> starts from, or a float.
  An int meets a float converted to a float.
\<close>

datatype pynum = PInt int | PFloat pyfloat

definition float_of_int :: "int \<Rightarrow> error + pyfloat" where
  "float_of_int i =
     (case round_binary64 (of_int \<bar>i\<bar>) of
        None \<Rightarrow> Inl OverflowError
      | Some r \<Rightarrow> Inr (Finite (i < 0) r))"

text \<open>\<open>total_amount += transaction['amount']\<close>.\<close>

fun add_amount :: "pynum \<Rightarrow> pyval \<Rightarrow> error + pynum" where
  "add_amount n (Str s) = Inl TypeError"
| "add_amount n PyNone = Inl TypeError"
| "add_amount (PFloat a) (Num x) = Inr (PFloat (fadd a x))"
| "add_amount (PInt i) (Num x) =
     (case float_of_int i of
        Inl e \<Rightarrow> Inl e
      | Inr a \<Rightarrow> Inr (PFloat (fadd a x)))"

text \<open>\<open>total_amount / len(transformed)\<close>.\<close>

fun divide_by_len :: "pynum \<Rightarrow> nat \<Rightarrow> error + pynum" where
  "divide_by_len (PFloat a) n =
     (case truediv a n of Inl e \<Rightarrow> Inl e | Inr q \<Rightarrow> Inr (PFloat q))"
| "divide_by_len (PInt i) n =
     (if n = 0 then Inl ZeroDivisionError
      else (case round_binary64 (of_int \<bar>i\<bar> / of_nat n) of
              None \<Rightarrow> Inl OverflowError
            | Some r \<Rightarrow> Inr (PFloat (Finite (i < 0) r))))"

subsection \<open>The body of the loop\<close>

text \<open>
  \<open>f"${transaction['amount']:.2f}"\<close>: the format code \<open>f\<close> on a text raises
  \<open>ValueError\<close> and on \<open>None\<close> \<open>TypeError\<close>, outside the \<open>try\<close>.
\<close>

fun amount_usd_of :: "pyval \<Rightarrow> error + string" where
  "amount_usd_of (Num x) = Inr (''$'' @ format_2f x)"
| "amount_usd_of (Str s) = Inl ValueError"
| "amount_usd_of PyNone = Inl TypeError"

text \<open>
  The \<open>try\<close> block: only \<open>ValueError\<close> is caught. A record with no \<open>timestamp\<close> raises
  \<open>KeyError\<close> and a timestamp that is no text raises \<open>TypeError\<close>; both leave the
  function.
\<close>

definition parse_timestamp :: "string dict \<Rightarrow> error + string dict" where
  "parse_timestamp t =
     (case dict_get t ''timestamp'' of
        Inl e \<Rightarrow> Inl e
      | Inr (Num x) \<Rightarrow> Inl TypeError
      | Inr PyNone \<Rightarrow> Inl TypeError
      | Inr (Str ts) \<Rightarrow>
          (case strptime ts of
             Inr dt \<Rightarrow>
               Inr (dict_set ''day_of_week'' (Str (strftime_A dt))
                     (dict_set ''time'' (Str (strftime_time dt))
                       (dict_set ''date'' (Str (strftime_date dt)) t)))
           | Inl e \<Rightarrow>
               Inr (dict_set ''day_of_week'' (Str ''Unknown'')
                     (dict_set ''time'' (Str ''Unknown'')
                       (dict_set ''date'' (Str ''Unknown'') t)))))"

definition add_fields :: "string dict \<Rightarrow> error + string dict" where
  "add_fields t =
     (case dict_get t ''amount'' of
        Inl e \<Rightarrow> Inl e
      | Inr a \<Rightarrow>
          (case amount_usd_of a of
             Inl e \<Rightarrow> Inl e
           | Inr s \<Rightarrow> parse_timestamp (dict_set ''amount_usd'' (Str s) t)))"

text \<open>
  The variables of the loop: \<open>transformed\<close>, \<open>total_amount\<close> (here \<open>total\<close>),
  \<open>sender_counts\<close> and \<open>recipient_counts\<close>.
\<close>

record loop_state =
  transformed :: "string dict list"
  total :: pynum
  sender_counts :: "(pyval \<times> nat) list"
  recipient_counts :: "(pyval \<times> nat) list"

definition loop_body :: "loop_state \<Rightarrow> string dict \<Rightarrow> error + loop_state" where
  "loop_body st t0 =
     (case add_fields t0 of
        Inl e \<Rightarrow> Inl e
      | Inr t \<Rightarrow>
     (case dict_get t ''amount'' of
        Inl e \<Rightarrow> Inl e
      | Inr a \<Rightarrow>
     (case add_amount (total st) a of
        Inl e \<Rightarrow> Inl e
      | Inr tot \<Rightarrow>
     (case dict_get t ''sender'' of
        Inl e \<Rightarrow> Inl e
      | Inr s \<Rightarrow>
     (case dict_get t ''recipient'' of
        Inl e \<Rightarrow> Inl e
      | Inr r \<Rightarrow>
          Inr \<lparr>transformed = transformed st @ [t],
               total = tot,
               sender_counts = increment (sender_counts st) s,
               recipient_counts = increment (recipient_counts st) r\<rparr>)))))"

fun loop :: "loop_state \<Rightarrow> string dict list \<Rightarrow> error + loop_state" where
  "loop st [] = Inr st"
| "loop st (t # ts) = (case loop_body st t of Inl e \<Rightarrow> Inl e | Inr st' \<Rightarrow> loop st' ts)"

definition initial_state :: loop_state where
  "initial_state = \<lparr>transformed = [], total = PInt 0, sender_counts = [], recipient_counts = []\<rparr>"

subsection \<open>The summary\<close>

text \<open>
  \<open>dict(sorted(counts.items(), key=lambda x: x[1], reverse=True)[:5])\<close>. Python's sort
  is stable, also with \<open>reverse=True\<close>: entries of equal count keep the order of
  \<open>items()\<close>, which is the order of first insertion.
\<close>

definition sorted_by_count :: "('k \<times> nat) list \<Rightarrow> ('k \<times> nat) list" where
  "sorted_by_count items = sort_key (\<lambda>x. - int (snd x)) items"

definition dict_of :: "('k \<times> 'v) list \<Rightarrow> ('k \<times> 'v) list" where
  "dict_of ps = foldl (\<lambda>d p. dict_set (fst p) (snd p) d) [] ps"

definition top5 :: "('k \<times> nat) list \<Rightarrow> ('k \<times> nat) list" where
  "top5 counts = dict_of (take 5 (sorted_by_count counts))"

record summary =
  total_transactions :: nat
  total_amount :: pynum
  average_amount :: pynum
  top_senders :: "(pyval \<times> nat) list"
  top_recipients :: "(pyval \<times> nat) list"

definition make_summary :: "loop_state \<Rightarrow> error + summary" where
  "make_summary st =
     (case (if transformed st \<noteq> [] then divide_by_len (total st) (length (transformed st))
            else Inr (PInt 0)) of
        Inl e \<Rightarrow> Inl e
      | Inr avg \<Rightarrow>
          Inr \<lparr>total_transactions = length (transformed st),
               total_amount = total st,
               average_amount = avg,
               top_senders = top5 (sender_counts st),
               top_recipients = top5 (recipient_counts st)\<rparr>)"

text \<open>
  \<open>transform\<close> returns the bare list \<open>[]\<close> for an empty input and the pair
  \<open>(transformed, summary)\<close> otherwise.
\<close>

datatype transform_result = Bare "string dict list" | WithSummary "string dict list" summary

definition transform :: "string dict list \<Rightarrow> error + transform_result" where
  "transform transactions =
     (if transactions = [] then Inr (Bare [])
      else (case loop initial_state transactions of
              Inl e \<Rightarrow> Inl e
            | Inr st \<Rightarrow>
                (case make_summary st of
                   Inl e \<Rightarrow> Inl e
                 | Inr s \<Rightarrow> Inr (WithSummary (transformed st) s))))"

section \<open>The stages around \<open>transform\<close>\<close>

subsection \<open>The world of a run\<close>

text \<open>
  What \<open>csv.DictReader\<close> yields for a file: rows, each a mapping from the column names
  of the header to the text of the cell (\<open>None\<close> when the row is short), or an error in
  the middle of reading. Opening the file may fail before any row is read.
\<close>

type_synonym row = "(string \<times> string option) list"

datatype reading = Row row | ReadError

datatype source = Missing | Unopenable | Rows "reading list"

text \<open>What writing to a path does: it succeeds, the file cannot be opened, or the
  writing fails after the file was opened (and emptied).\<close>

datatype disk = WriteOk | OpenFails | WriteFails

text \<open>The document that \<open>json.dump\<close> writes, or what is left of a file when it fails.\<close>

datatype document = Json "summary" "string dict list" | Partial

text \<open>The lines that the stages print, by their content.\<close>

datatype message =
    Rule | Started | Extracted nat string | NotFound string | ExtractError
  | PipelineFailed | Transformed nat | TotalAmount pynum | AverageAmount pynum
  | Loaded string | LoadError | CompletedSuccessfully | CompletedWithErrors

datatype stage = Extract | Transform | Load

text \<open>
  The state a run acts on: what reading each path gives, what writing to each path
  does, the files written so far, the console, and the stages called so far.
\<close>

record world =
  sources :: "string \<Rightarrow> source"
  disks :: "string \<Rightarrow> disk"
  written :: "string \<rightharpoonup> document"
  console :: "message list"
  calls :: "stage list"

definition print :: "message \<Rightarrow> world \<Rightarrow> world" where
  "print m w = w\<lparr>console := console w @ [m]\<rparr>"

definition call :: "stage \<Rightarrow> world \<Rightarrow> world" where
  "call s w = w\<lparr>calls := calls w @ [s]\<rparr>"

subsection \<open>\<open>extract\<close>\<close>

definition cell :: "string option \<Rightarrow> pyval" where
  "cell c = (case c of None \<Rightarrow> PyNone | Some t \<Rightarrow> Str t)"

text \<open>
  One row becomes one record. \<open>row[k]\<close> raises \<open>KeyError\<close> when the header has no
  column \<open>k\<close>; \<open>float\<close> raises \<open>TypeError\<close> on \<open>None\<close> and \<open>ValueError\<close> on a text that
  is no number. The conversion of a text to a float is Python's own and is a parameter
  here, \<open>None\<close> standing for \<open>ValueError\<close>.
\<close>

definition record_of_row :: "(string \<Rightarrow> pyfloat option) \<Rightarrow> row \<Rightarrow> error + string dict" where
  "record_of_row float r =
     (case dict_get r ''sender'' of Inl e \<Rightarrow> Inl e | Inr s \<Rightarrow>
     (case dict_get r ''recipient'' of Inl e \<Rightarrow> Inl e | Inr rc \<Rightarrow>
     (case dict_get r ''amount'' of Inl e \<Rightarrow> Inl e | Inr a \<Rightarrow>
     (case a of None \<Rightarrow> Inl TypeError | Some t \<Rightarrow>
     (case float t of None \<Rightarrow> Inl ValueError | Some x \<Rightarrow>
     (case dict_get r ''timestamp'' of Inl e \<Rightarrow> Inl e | Inr ts \<Rightarrow>
        Inr [(''sender'', cell s), (''recipient'', cell rc), (''amount'', Num x),
             (''timestamp'', cell ts)]))))))"

fun read_rows :: "(string \<Rightarrow> pyfloat option) \<Rightarrow> string dict list \<Rightarrow> reading list
                  \<Rightarrow> string dict list option" where
  "read_rows float transactions [] = Some transactions"
| "read_rows float transactions (ReadError # rs) = None"
| "read_rows float transactions (Row r # rs) =
     (case record_of_row float r of
        Inl e \<Rightarrow> None
      | Inr t \<Rightarrow> read_rows float (transactions @ [t]) rs)"

text \<open>
  The function \<open>extract\<close> of the source (the word is reserved in Isabelle, hence the
  suffix). Every exception ends in one of the two \<open>except\<close> branches, which return
  \<open>[]\<close>.
\<close>

definition extract_stage :: "(string \<Rightarrow> pyfloat option) \<Rightarrow> string \<Rightarrow> world \<Rightarrow> string dict list \<times> world" where
  "extract_stage float csv_file w0 =
     (let w = call Extract w0
      in case sources w csv_file of
           Missing \<Rightarrow> ([], print (NotFound csv_file) w)
         | Unopenable \<Rightarrow> ([], print ExtractError w)
         | Rows rs \<Rightarrow>
             (case read_rows float [] rs of
                None \<Rightarrow> ([], print ExtractError w)
              | Some transactions \<Rightarrow>
                  (transactions, print (Extracted (length transactions) csv_file) w)))"

subsection \<open>\<open>load\<close>\<close>

definition load :: "string dict list \<Rightarrow> summary \<Rightarrow> string \<Rightarrow> world \<Rightarrow> bool \<times> world" where
  "load transformed_data summary output_file w0 =
     (let w = call Load w0
      in case disks w output_file of
           OpenFails \<Rightarrow> (False, print LoadError w)
         | WriteFails \<Rightarrow>
             (False, print LoadError (w\<lparr>written := (written w)(output_file \<mapsto> Partial)\<rparr>))
         | WriteOk \<Rightarrow>
             (True, print (Loaded output_file)
                      (w\<lparr>written := (written w)(output_file \<mapsto> Json summary transformed_data)\<rparr>)))"

subsection \<open>\<open>main\<close>\<close>

text \<open>
  \<open>transform\<close> prints its three lines just before it returns the pair; an exception
  that leaves \<open>transform\<close> leaves \<open>main\<close> too, which has no handler. The assignment
  \<open>transformed, summary = transform(transactions)\<close> raises \<open>ValueError\<close> on a bare
  empty list.
\<close>

definition run_transform :: "string dict list \<Rightarrow> world
                               \<Rightarrow> (error + string dict list \<times> summary) \<times> world" where
  "run_transform transactions w0 =
     (let w = call Transform w0
      in case transform transactions of
           Inl e \<Rightarrow> (Inl e, w)
         | Inr (Bare xs) \<Rightarrow> (Inl ValueError, w)
         | Inr (WithSummary out s) \<Rightarrow>
             (Inr (out, s),
              print (AverageAmount (average_amount s))
               (print (TotalAmount (total_amount s))
                 (print (Transformed (length out)) w))))"

text \<open>The result of \<open>main\<close>: the world at the end, and the exception that ended the run,
  if one did.\<close>

definition main :: "(string \<Rightarrow> pyfloat option) \<Rightarrow> world \<Rightarrow> world \<times> error option" where
  "main float w0 =
     (let w1 = print Rule (print Started (print Rule w0));
          (transactions, w2) = extract_stage float ''transactions.csv'' w1
      in if transactions = [] then (print PipelineFailed w2, None)
         else (case run_transform transactions w2 of
                 (Inl e, w3) \<Rightarrow> (w3, Some e)
               | (Inr (transformed_data, summary), w3) \<Rightarrow>
                   (let (success, w4) =
                          load transformed_data summary ''transformed_transactions.json'' w3;
                        w5 = print Rule w4;
                        w6 = (if success then print CompletedSuccessfully w5
                              else print CompletedWithErrors w5)
                    in (print Rule w6, None))))"

section \<open>Well-formed input\<close>

text \<open>
  A raw record, as \<open>extract\<close> builds it and as the specification's data model has
  it: texts under \<open>sender\<close>, \<open>recipient\<close> and \<open>timestamp\<close>, a float under \<open>amount\<close>.
\<close>

fun is_text :: "pyval option \<Rightarrow> bool" where
  "is_text (Some (Str s)) = True"
| "is_text _ = False"

fun is_number :: "pyval option \<Rightarrow> bool" where
  "is_number (Some (Num a)) = True"
| "is_number _ = False"

definition raw_record :: "string dict \<Rightarrow> bool" where
  "raw_record t =
     (is_text (map_of t ''sender'') \<and> is_text (map_of t ''recipient'')
      \<and> is_number (map_of t ''amount'') \<and> is_text (map_of t ''timestamp''))"

text \<open>The values a well-formed record contributes to the aggregates.\<close>

definition amount_of :: "string dict \<Rightarrow> pyfloat" where
  "amount_of t = (case map_of t ''amount'' of Some (Num a) \<Rightarrow> a | _ \<Rightarrow> NaN)"

definition value_of :: "string \<Rightarrow> string dict \<Rightarrow> pyval" where
  "value_of k t = (case map_of t k of Some v \<Rightarrow> v | None \<Rightarrow> Str [])"

definition float_total :: "pynum \<Rightarrow> bool" where
  "float_total n = (n = PInt 0 \<or> (\<exists>a. n = PFloat a))"

definition running_sum :: "pynum \<Rightarrow> pyfloat list \<Rightarrow> pynum" where
  "running_sum n xs =
     (case xs of [] \<Rightarrow> n
      | _ \<Rightarrow> PFloat (foldl fadd (case n of PFloat a \<Rightarrow> a | PInt i \<Rightarrow> Finite False 0) xs))"


text \<open>The three rows of the specification's scenario, as \<open>extract\<close> returns them.\<close>

definition raw :: "string \<Rightarrow> string \<Rightarrow> pyfloat \<Rightarrow> string \<Rightarrow> string dict" where
  "raw s r a ts =
     [(''sender'', Str s), (''recipient'', Str r), (''amount'', Num a), (''timestamp'', Str ts)]"

definition scenario :: "string dict list" where
  "scenario =
     [raw ''A'' ''B'' (Finite False 10) ''2023-01-02 10:00:00'',
      raw ''A'' ''C'' (Finite False 5) ''2023-01-02 11:00:00'',
      raw ''B'' ''A'' (Finite False 10) ''bad-timestamp'']"

definition derived_keys :: "string set" where
  "derived_keys = {''amount_usd'', ''date'', ''time'', ''day_of_week''}"

section \<open>Counting and ranking, as the specification words them\<close>

text \<open>The distinct keys of a sequence, in the order in which each is first met.\<close>

fun first_seen :: "'a list \<Rightarrow> 'a list" where
  "first_seen [] = []"
| "first_seen (x # xs) = x # filter (\<lambda>y. y \<noteq> x) (first_seen xs)"

text \<open>The position at which a key is first met.\<close>

definition first_index :: "'a list \<Rightarrow> 'a \<Rightarrow> nat" where
  "first_index xs x = length (takeWhile (\<lambda>y. y \<noteq> x) xs)"

text \<open>The occurrence count of every key, keys in the order of first encounter.\<close>

definition occurrences :: "'a list \<Rightarrow> ('a \<times> nat) list" where
  "occurrences ks = map (\<lambda>k. (k, count_list ks k)) (first_seen ks)"

text \<open>
  The ranking order: the larger count first, and of two keys with the same count the
  one that was met first.
\<close>

definition ranks_before :: "'a list \<Rightarrow> ('a \<times> nat) \<Rightarrow> ('a \<times> nat) \<Rightarrow> bool" where
  "ranks_before ks a b =
     (snd b < snd a \<or> (snd a = snd b \<and> first_index ks (fst a) < first_index ks (fst b)))"

text \<open>
  What the specification asks of a top-5 mapping \<open>tops\<close> over the keys \<open>ks\<close> of the
  input: at most five entries, all keys when there are no more than five, each entry a
  key of the input with its occurrence count, in ranking order, and no key that is left
  out occurs more often than a key that is in.
\<close>

definition top_five_of :: "'a list \<Rightarrow> ('a \<times> nat) list \<Rightarrow> bool" where
  "top_five_of ks tops =
     (length tops \<le> 5
      \<and> length tops = min 5 (card (set ks))
      \<and> distinct (map fst tops)
      \<and> (\<forall>e \<in> set tops. fst e \<in> set ks \<and> snd e = count_list ks (fst e))
      \<and> sorted_wrt (\<lambda>a b. snd b \<le> snd a) tops
      \<and> sorted_wrt (ranks_before ks) tops
      \<and> (\<forall>k \<in> set ks. k \<notin> fst ` set tops \<longrightarrow> (\<forall>e \<in> set tops. count_list ks k \<le> snd e))
      \<and> (card (set ks) \<le> 5 \<longrightarrow> fst ` set tops = set ks))"

text \<open>A world in which the input file does not exist.\<close>

definition no_input :: world where
  "no_input = \<lparr>sources = (\<lambda>p. Missing), disks = (\<lambda>p. WriteOk), written = Map.empty,
                console = [], calls = []\<rparr>"

section \<open>Reading results\<close>

text \<open>The number that a text of decimal digits denotes.\<close>

definition digits_value :: "string \<Rightarrow> nat" where
  "digits_value s = foldl (\<lambda>a c. 10 * a + digit_val c) 0 s"

text \<open>The sequence and the summary of a result of \<open>transform\<close>.\<close>

definition records_of :: "error + transform_result \<Rightarrow> string dict list" where
  "records_of r = (case r of Inr (WithSummary out s) \<Rightarrow> out | Inr (Bare xs) \<Rightarrow> xs | Inl e \<Rightarrow> [])"

definition summary_of :: "error + transform_result \<Rightarrow> summary option" where
  "summary_of r = (case r of Inr (WithSummary out s) \<Rightarrow> Some s | _ \<Rightarrow> None)"

text \<open>The exact value of a float that is finite.\<close>

fun float_value :: "pyfloat \<Rightarrow> rat option" where
  "float_value (Finite s q) = Some (signed s q)"
| "float_value (Infinity s) = None"
| "float_value NaN = None"

fun number_value :: "pynum \<Rightarrow> rat option" where
  "number_value (PInt i) = Some (of_int i)"
| "number_value (PFloat x) = float_value x"

text \<open>A float is well formed when its magnitude is not negative.\<close>

fun magnitude_ok :: "pyfloat \<Rightarrow> bool" where
  "magnitude_ok (Finite s q) = (0 \<le> q)"
| "magnitude_ok x = True"

text \<open>One row whose amount is \<open>nan\<close> (the text \<open>nan\<close> converts to a float).\<close>

definition nan_input :: "string dict list" where
  "nan_input = [raw ''A'' ''B'' NaN ''2023-01-02 10:00:00'']"

text \<open>Three rows with the amounts \<open>9007199254740992.0\<close> (that is \<open>2 ^ 53\<close>), \<open>1.0\<close> and \<open>1.0\<close>.\<close>

definition large_input :: "string dict list" where
  "large_input =
     [raw ''A'' ''B'' (Finite False 9007199254740992) ''2023-01-02 10:00:00'',
      raw ''A'' ''B'' (Finite False 1) ''2023-01-02 10:00:00'',
      raw ''A'' ''B'' (Finite False 1) ''2023-01-02 10:00:00'']"

section \<open>Exact sums\<close>

text \<open>The sum of the amounts as numbers, with no rounding.\<close>

fun exact_sum :: "pyfloat list \<Rightarrow> rat" where
  "exact_sum [] = 0"
| "exact_sum (Finite s q # xs) = signed s q + exact_sum xs"
| "exact_sum (x # xs) = exact_sum xs"

text \<open>
  The amounts are finite and, starting from \<open>acc\<close>, every partial sum in the order of
  the input is a binary64 number: no addition of the loop rounds.
\<close>

fun no_rounding :: "rat \<Rightarrow> pyfloat list \<Rightarrow> bool" where
  "no_rounding acc [] = True"
| "no_rounding acc (Finite s q # xs) =
     (0 \<le> q \<and> round_binary64 \<bar>acc + signed s q\<bar> = Some \<bar>acc + signed s q\<bar>
      \<and> no_rounding (acc + signed s q) xs)"
| "no_rounding acc (x # xs) = False"

section \<open>The loop on well-formed records\<close>

lemma is_text_iff: "is_text x \<longleftrightarrow> (\<exists>s. x = Some (Str s))"
  by (cases x rule: is_text.cases) auto

lemma is_number_iff: "is_number x \<longleftrightarrow> (\<exists>a. x = Some (Num a))"
  by (cases x rule: is_number.cases) auto

lemma map_of_dict_set: "map_of (dict_set k v d) = (map_of d)(k \<mapsto> v)"
  by (induction d) (auto simp: fun_eq_iff)

lemma keys_dict_set: "fst ` set (dict_set k v d) = insert k (fst ` set d)"
  by (induction d) auto

lemma raw_recordE:
  assumes "raw_record t"
  obtains s r a ts where "map_of t ''sender'' = Some (Str s)" "map_of t ''recipient'' = Some (Str r)"
    "map_of t ''amount'' = Some (Num a)" "map_of t ''timestamp'' = Some (Str ts)"
  using assms unfolding raw_record_def is_text_iff is_number_iff by blast

lemma parse_timestamp_frame:
  assumes "parse_timestamp t = Inr t'" "k \<notin> {''date'', ''time'', ''day_of_week''}"
  shows "map_of t' k = map_of t k"
  using assms unfolding parse_timestamp_def
  by (auto simp: map_of_dict_set split: sum.splits pyval.splits)

lemma add_fields_frame:
  assumes "add_fields t = Inr t'" "k \<notin> {''amount_usd'', ''date'', ''time'', ''day_of_week''}"
  shows "map_of t' k = map_of t k"
  using assms unfolding add_fields_def
  by (auto simp: map_of_dict_set dest!: parse_timestamp_frame[where k = k] split: sum.splits)

lemma parse_timestamp_total:
  assumes "map_of t ''timestamp'' = Some (Str ts)"
  shows "\<exists>t'. parse_timestamp t = Inr t'"
  using assms unfolding parse_timestamp_def dict_get_def
  by (auto split: sum.splits)

lemma add_fields_total:
  assumes "raw_record t"
  shows "\<exists>t'. add_fields t = Inr t'"
proof -
  from assms obtain a ts where *: "map_of t ''amount'' = Some (Num a)" "map_of t ''timestamp'' = Some (Str ts)"
    by (auto elim: raw_recordE)
  have "map_of (dict_set ''amount_usd'' (Str (''$'' @ format_2f a)) t) ''timestamp'' = Some (Str ts)"
    using * by (simp add: map_of_dict_set)
  from parse_timestamp_total[OF this] show ?thesis
    using * by (simp add: add_fields_def dict_get_def)
qed

lemma add_fields_raw:
  assumes "add_fields t = Inr t'" "raw_record t"
  shows "raw_record t'"
  using assms add_fields_frame[OF assms(1)] unfolding raw_record_def by simp

lemma float_of_int_0: "float_of_int 0 = Inr (Finite False 0)"
  by (simp add: float_of_int_def round_binary64_def)

lemma loop_body_raw:
  assumes "raw_record t" "float_total (total st)"
  shows "\<exists>t'. add_fields t = Inr t' \<and>
           loop_body st t = Inr \<lparr>transformed = transformed st @ [t'],
               total = running_sum (total st) [amount_of t],
               sender_counts = increment (sender_counts st) (value_of ''sender'' t),
               recipient_counts = increment (recipient_counts st) (value_of ''recipient'' t)\<rparr>"
proof -
  from add_fields_total[OF assms(1)] obtain t' where t': "add_fields t = Inr t'" by blast
  from assms(1) obtain s r a where *: "map_of t ''sender'' = Some (Str s)"
     "map_of t ''recipient'' = Some (Str r)" "map_of t ''amount'' = Some (Num a)"
    by (auto elim: raw_recordE)
  have **: "map_of t' ''sender'' = Some (Str s)" "map_of t' ''recipient'' = Some (Str r)"
     "map_of t' ''amount'' = Some (Num a)"
    using * add_fields_frame[OF t'] by simp_all
  from assms(2) have "add_amount (total st) (Num a) = Inr (running_sum (total st) [a])"
    by (auto simp: float_total_def running_sum_def float_of_int_0)
  then show ?thesis
    using t' * ** by (simp add: loop_body_def dict_get_def amount_of_def value_of_def)
qed

lemma running_sum_step: "running_sum (running_sum n [a]) xs = running_sum n (a # xs)"
  by (cases xs) (auto simp: running_sum_def split: pynum.splits)

lemma float_total_running_sum: "float_total (running_sum n [a])"
  by (simp add: float_total_def running_sum_def)

lemma loop_raw:
  assumes "list_all raw_record txs" "float_total (total st)"
  shows "\<exists>out. list_all2 (\<lambda>t t'. add_fields t = Inr t') txs out \<and>
           loop st txs = Inr \<lparr>transformed = transformed st @ out,
               total = running_sum (total st) (map amount_of txs),
               sender_counts = foldl increment (sender_counts st) (map (value_of ''sender'') txs),
               recipient_counts = foldl increment (recipient_counts st) (map (value_of ''recipient'') txs)\<rparr>"
  using assms
proof (induction txs arbitrary: st)
  case Nil
  then show ?case by (simp add: running_sum_def)
next
  case (Cons t txs)
  from Cons.prems have t: "raw_record t" and rest: "list_all raw_record txs" by simp_all
  from loop_body_raw[OF t Cons.prems(2)] obtain t' where t': "add_fields t = Inr t'"
    and body: "loop_body st t = Inr \<lparr>transformed = transformed st @ [t'],
               total = running_sum (total st) [amount_of t],
               sender_counts = increment (sender_counts st) (value_of ''sender'' t),
               recipient_counts = increment (recipient_counts st) (value_of ''recipient'' t)\<rparr>"
      (is "_ = Inr ?st'")
    by blast
  have "float_total (total ?st')" by (simp add: float_total_running_sum)
  from Cons.IH[OF rest this] obtain out where
    out: "list_all2 (\<lambda>t t'. add_fields t = Inr t') txs out"
    and lp: "loop ?st' txs = Inr \<lparr>transformed = transformed ?st' @ out,
               total = running_sum (total ?st') (map amount_of txs),
               sender_counts = foldl increment (sender_counts ?st') (map (value_of ''sender'') txs),
               recipient_counts = foldl increment (recipient_counts ?st') (map (value_of ''recipient'') txs)\<rparr>"
    by blast
  have "list_all2 (\<lambda>t t'. add_fields t = Inr t') (t # txs) (t' # out)"
    using t' out by simp
  moreover have "loop st (t # txs) = Inr \<lparr>transformed = transformed st @ (t' # out),
               total = running_sum (total st) (map amount_of (t # txs)),
               sender_counts = foldl increment (sender_counts st) (map (value_of ''sender'') (t # txs)),
               recipient_counts = foldl increment (recipient_counts st) (map (value_of ''recipient'') (t # txs))\<rparr>"
    using body lp by (simp add: running_sum_step)
  ultimately show ?case by blast
qed

lemma truediv_pos: "0 < n \<Longrightarrow> \<exists>q. truediv x n = Inr q"
  by (cases x; cases n) (auto split: option.splits)

text \<open>What \<open>transform\<close> computes on a non-empty sequence of well-formed records.\<close>

lemma transform_raw:
  assumes "txs \<noteq> []" "list_all raw_record txs"
  shows "\<exists>out avg. list_all2 (\<lambda>t t'. add_fields t = Inr t') txs out
           \<and> truediv (foldl fadd (Finite False 0) (map amount_of txs)) (length txs) = Inr avg
           \<and> transform txs = Inr (WithSummary out
                \<lparr>total_transactions = length txs,
                 total_amount = PFloat (foldl fadd (Finite False 0) (map amount_of txs)),
                 average_amount = PFloat avg,
                 top_senders = top5 (foldl increment [] (map (value_of ''sender'') txs)),
                 top_recipients = top5 (foldl increment [] (map (value_of ''recipient'') txs))\<rparr>)"
proof -
  have "float_total (total initial_state)" by (simp add: initial_state_def float_total_def)
  from loop_raw[OF assms(2) this] obtain out where
    out: "list_all2 (\<lambda>t t'. add_fields t = Inr t') txs out"
    and lp: "loop initial_state txs = Inr \<lparr>transformed = out,
               total = running_sum (PInt 0) (map amount_of txs),
               sender_counts = foldl increment [] (map (value_of ''sender'') txs),
               recipient_counts = foldl increment [] (map (value_of ''recipient'') txs)\<rparr>"
    by (auto simp: initial_state_def)
  from out have len: "length out = length txs" by (simp add: list_all2_lengthD)
  with assms(1) have ne: "out \<noteq> []" by auto
  from assms(1) have rs: "running_sum (PInt 0) (map amount_of txs)
      = PFloat (foldl fadd (Finite False 0) (map amount_of txs))"
    by (cases txs) (simp_all add: running_sum_def)
  from assms(1) obtain avg where
    avg: "truediv (foldl fadd (Finite False 0) (map amount_of txs)) (length txs) = Inr avg"
    using truediv_pos[of "length txs"] by auto
  have "transform txs = Inr (WithSummary out
                \<lparr>total_transactions = length txs,
                 total_amount = PFloat (foldl fadd (Finite False 0) (map amount_of txs)),
                 average_amount = PFloat avg,
                 top_senders = top5 (foldl increment [] (map (value_of ''sender'') txs)),
                 top_recipients = top5 (foldl increment [] (map (value_of ''recipient'') txs))\<rparr>)"
    using assms(1) lp ne len rs avg by (simp add: transform_def make_summary_def)
  with out avg show ?thesis by blast
qed

lemma raw_record_raw: "raw_record (raw s r a ts)"
  by (simp add: raw_record_def raw_def)

lemma scenario_nonempty: "scenario \<noteq> []"
  by (simp add: scenario_def)

lemma scenario_all_raw: "list_all raw_record scenario"
  by (simp add: scenario_def raw_record_raw)

lemma original_keys_not_derived:
  "''sender'' \<notin> derived_keys" "''recipient'' \<notin> derived_keys"
  "''amount'' \<notin> derived_keys" "''timestamp'' \<notin> derived_keys"
  by (simp_all add: derived_keys_def)

lemma add_fields_frame_derived:
  assumes "add_fields t = Inr t'" "k \<notin> derived_keys"
  shows "map_of t' k = map_of t k"
  using add_fields_frame[OF assms(1), of k] assms(2) by (simp add: derived_keys_def)

lemma parse_timestamp_shape:
  assumes "parse_timestamp t = Inr t'"
  shows "\<exists>a b c. t' = dict_set ''day_of_week'' a (dict_set ''time'' b (dict_set ''date'' c t))"
  using assms unfolding parse_timestamp_def
  by (auto split: sum.splits pyval.splits)

lemma add_fields_shape:
  assumes "add_fields t = Inr t'"
  shows "\<exists>a b c d. t' = dict_set ''day_of_week'' a (dict_set ''time'' b (dict_set ''date'' c
            (dict_set ''amount_usd'' d t)))"
  using assms unfolding add_fields_def
  by (auto dest!: parse_timestamp_shape split: sum.splits)

lemma add_fields_keys:
  assumes "add_fields t = Inr t'"
  shows "fst ` set t' = fst ` set t \<union> derived_keys"
proof -
  from add_fields_shape[OF assms] obtain a b c d where
    "t' = dict_set ''day_of_week'' a (dict_set ''time'' b (dict_set ''date'' c
            (dict_set ''amount_usd'' d t)))" by blast
  then show ?thesis
    unfolding derived_keys_def by (simp only: keys_dict_set) blast
qed


section \<open>Length and order of the output\<close>

text \<open>
  C1. For every non-empty sequence of raw records, \<open>transform\<close> returns the pair of an
  enriched sequence and a summary; the sequence has the length of the input, and its
  record at each position is the enrichment of the input record at that position, with
  the sender, recipient, amount and timestamp of that record.
\<close>

theorem transform_length_order:
  assumes "transactions \<noteq> []" "list_all raw_record transactions"
  shows "\<exists>out s. transform transactions = Inr (WithSummary out s)
           \<and> length out = length transactions
           \<and> (\<forall>i<length transactions.
                 add_fields (transactions ! i) = Inr (out ! i)
                 \<and> map_of (out ! i) ''sender'' = map_of (transactions ! i) ''sender''
                 \<and> map_of (out ! i) ''recipient'' = map_of (transactions ! i) ''recipient''
                 \<and> map_of (out ! i) ''amount'' = map_of (transactions ! i) ''amount''
                 \<and> map_of (out ! i) ''timestamp'' = map_of (transactions ! i) ''timestamp'')"
proof -
  from transform_raw[OF assms] obtain out s where
    out: "list_all2 (\<lambda>t t'. add_fields t = Inr t') transactions out"
    and tr: "transform transactions = Inr (WithSummary out s)"
    by blast
  from out have len: "length out = length transactions"
    by (simp add: list_all2_lengthD)
  have "add_fields (transactions ! i) = Inr (out ! i)
      \<and> map_of (out ! i) ''sender'' = map_of (transactions ! i) ''sender''
      \<and> map_of (out ! i) ''recipient'' = map_of (transactions ! i) ''recipient''
      \<and> map_of (out ! i) ''amount'' = map_of (transactions ! i) ''amount''
      \<and> map_of (out ! i) ''timestamp'' = map_of (transactions ! i) ''timestamp''"
    if "i < length transactions" for i
  proof -
    have af: "add_fields (transactions ! i) = Inr (out ! i)"
      using list_all2_nthD[OF out that] .
    show ?thesis
      using af add_fields_frame_derived[OF af] original_keys_not_derived by simp
  qed
  with tr len show ?thesis by blast
qed

theorem transform_length_order_witness:
  "\<exists>out s. transform scenario = Inr (WithSummary out s)
           \<and> length out = length scenario
           \<and> (\<forall>i<length scenario.
                 add_fields (scenario ! i) = Inr (out ! i)
                 \<and> map_of (out ! i) ''sender'' = map_of (scenario ! i) ''sender''
                 \<and> map_of (out ! i) ''recipient'' = map_of (scenario ! i) ''recipient''
                 \<and> map_of (out ! i) ''amount'' = map_of (scenario ! i) ''amount''
                 \<and> map_of (out ! i) ''timestamp'' = map_of (scenario ! i) ''timestamp'')"
  using transform_length_order[OF scenario_nonempty scenario_all_raw] .

section \<open>The empty input\<close>

text \<open>
  C6. On the empty sequence \<open>transform\<close> returns the bare empty sequence, not a pair
  with a summary; the test comes before the loop and before the summary.
\<close>

theorem transform_empty:
  "transform [] = Inr (Bare [])"
  by (simp add: transform_def)

section \<open>The original fields\<close>

text \<open>
  C8. \<open>transform\<close> leaves the fields of every record as they were, the sender, the
  recipient, the amount and the timestamp among them: it writes the keys
  \<open>amount_usd\<close>, \<open>date\<close>, \<open>time\<close> and \<open>day_of_week\<close> only, and the keys of an output
  record are those of the input record and these four.
\<close>

theorem transform_frame:
  assumes "transactions \<noteq> []" "list_all raw_record transactions" "i < length transactions"
  shows "\<exists>out s. transform transactions = Inr (WithSummary out s)
           \<and> map_of (out ! i) ''sender'' = map_of (transactions ! i) ''sender''
           \<and> map_of (out ! i) ''recipient'' = map_of (transactions ! i) ''recipient''
           \<and> map_of (out ! i) ''amount'' = map_of (transactions ! i) ''amount''
           \<and> map_of (out ! i) ''timestamp'' = map_of (transactions ! i) ''timestamp''
           \<and> (\<forall>k. k \<notin> derived_keys \<longrightarrow> map_of (out ! i) k = map_of (transactions ! i) k)
           \<and> fst ` set (out ! i) = fst ` set (transactions ! i) \<union> derived_keys"
proof -
  from transform_raw[OF assms(1,2)] obtain out s where
    out: "list_all2 (\<lambda>t t'. add_fields t = Inr t') transactions out"
    and tr: "transform transactions = Inr (WithSummary out s)"
    by blast
  have af: "add_fields (transactions ! i) = Inr (out ! i)"
    using list_all2_nthD[OF out assms(3)] .
  have "map_of (out ! i) ''sender'' = map_of (transactions ! i) ''sender''
      \<and> map_of (out ! i) ''recipient'' = map_of (transactions ! i) ''recipient''
      \<and> map_of (out ! i) ''amount'' = map_of (transactions ! i) ''amount''
      \<and> map_of (out ! i) ''timestamp'' = map_of (transactions ! i) ''timestamp''
      \<and> (\<forall>k. k \<notin> derived_keys \<longrightarrow> map_of (out ! i) k = map_of (transactions ! i) k)
      \<and> fst ` set (out ! i) = fst ` set (transactions ! i) \<union> derived_keys"
    using add_fields_frame_derived[OF af] original_keys_not_derived add_fields_keys[OF af]
    by simp
  with tr show ?thesis by blast
qed

theorem transform_frame_witness:
  "\<exists>out s. transform scenario = Inr (WithSummary out s)
           \<and> map_of (out ! 2) ''sender'' = map_of (scenario ! 2) ''sender''
           \<and> map_of (out ! 2) ''recipient'' = map_of (scenario ! 2) ''recipient''
           \<and> map_of (out ! 2) ''amount'' = map_of (scenario ! 2) ''amount''
           \<and> map_of (out ! 2) ''timestamp'' = map_of (scenario ! 2) ''timestamp''
           \<and> (\<forall>k. k \<notin> derived_keys \<longrightarrow> map_of (out ! 2) k = map_of (scenario ! 2) k)
           \<and> fst ` set (out ! 2) = fst ` set (scenario ! 2) \<union> derived_keys"
proof -
  have "(2::nat) < length scenario" by (simp add: scenario_def)
  from transform_frame[OF scenario_nonempty scenario_all_raw this] show ?thesis .
qed
section \<open>The division of the average\<close>

lemma loop_body_length:
  assumes "loop_body st t = Inr st'"
  shows "length (transformed st') = Suc (length (transformed st))"
  using assms unfolding loop_body_def
  by (auto split: sum.splits)

lemma loop_length:
  assumes "loop st txs = Inr st'"
  shows "length (transformed st') = length (transformed st) + length txs"
  using assms
proof (induction txs arbitrary: st)
  case Nil
  then show ?case by simp
next
  case (Cons t txs)
  then show ?case
    by (auto split: sum.splits dest!: loop_body_length)
qed

lemma dict_get_error: "dict_get d k = Inl e \<Longrightarrow> e = KeyError"
  by (auto simp: dict_get_def split: option.splits)

lemma amount_usd_of_error: "amount_usd_of a = Inl e \<Longrightarrow> e = ValueError \<or> e = TypeError"
  by (cases a) auto

lemma parse_timestamp_error: "parse_timestamp t = Inl e \<Longrightarrow> e = KeyError \<or> e = TypeError"
  unfolding parse_timestamp_def
  by (auto split: sum.splits pyval.splits dest: dict_get_error)

lemma add_fields_error:
  "add_fields t = Inl e \<Longrightarrow> e = KeyError \<or> e = ValueError \<or> e = TypeError"
  unfolding add_fields_def
  by (auto split: sum.splits dest: dict_get_error amount_usd_of_error parse_timestamp_error)

lemma float_of_int_error: "float_of_int i = Inl e \<Longrightarrow> e = OverflowError"
  by (auto simp: float_of_int_def split: option.splits)

lemma add_amount_error: "add_amount n a = Inl e \<Longrightarrow> e = TypeError \<or> e = OverflowError"
  by (cases "(n, a)" rule: add_amount.cases)
     (auto split: sum.splits dest: float_of_int_error)

lemma loop_body_error: "loop_body st t = Inl e \<Longrightarrow> e \<noteq> ZeroDivisionError"
  unfolding loop_body_def
  by (auto split: sum.splits
           dest: dict_get_error add_fields_error add_amount_error)

lemma loop_error: "loop st txs = Inl e \<Longrightarrow> e \<noteq> ZeroDivisionError"
proof (induction txs arbitrary: st)
  case Nil
  then show ?case by simp
next
  case (Cons t txs)
  then show ?case
    by (auto split: sum.splits dest: loop_body_error)
qed

lemma truediv_error: "truediv a n = Inl e \<Longrightarrow> n = 0"
  by (cases "(a, n)" rule: truediv.cases) (auto split: option.splits)

lemma divide_by_len_pos:
  assumes "0 < n"
  shows "divide_by_len x n \<noteq> Inl ZeroDivisionError"
    and "divide_by_len x n = Inr q \<Longrightarrow> \<exists>a. q = PFloat a"
  using assms
  by (cases x; auto split: sum.splits option.splits dest: truediv_error)+

lemma make_summary_nonempty:
  assumes "transformed st \<noteq> []"
  shows "make_summary st \<noteq> Inl ZeroDivisionError"
    and "make_summary st = Inr s \<Longrightarrow>
           total_transactions s = length (transformed st) \<and> total_amount s = total st
           \<and> divide_by_len (total st) (length (transformed st)) = Inr (average_amount s)"
  using assms divide_by_len_pos(1)[of "length (transformed st)" "total st"]
  unfolding make_summary_def
  by (auto split: sum.splits)

lemma loop_initial_nonempty:
  assumes "transactions \<noteq> []" "loop initial_state transactions = Inr st"
  shows "transformed st \<noteq> []"
  using loop_length[OF assms(2)] assms(1) by (auto simp: initial_state_def)

text \<open>
  C10. Whenever \<open>transform\<close> builds a summary, the list whose length divides the total
  is not empty: the empty input has returned before, and the loop appends one record
  for each input record. So the division does not raise \<open>ZeroDivisionError\<close>, no run of
  \<open>transform\<close> ends in that error, and the average of a summary is the quotient, a
  float, never the \<open>0\<close> of the guard.
\<close>

theorem average_division_safe:
  "transform transactions \<noteq> Inl ZeroDivisionError
   \<and> (\<forall>st. transactions \<noteq> [] \<and> loop initial_state transactions = Inr st
          \<longrightarrow> transformed st \<noteq> [] \<and> make_summary st \<noteq> Inl ZeroDivisionError)
   \<and> (\<forall>out s. transform transactions = Inr (WithSummary out s)
          \<longrightarrow> 0 < total_transactions s \<and> total_transactions s = length out
              \<and> divide_by_len (total_amount s) (total_transactions s) = Inr (average_amount s)
              \<and> (\<exists>q. average_amount s = PFloat q))"
proof (intro conjI allI impI)
  show "transform transactions \<noteq> Inl ZeroDivisionError"
  proof (cases "transactions = []")
    case True
    then show ?thesis by (simp add: transform_def)
  next
    case False
    show ?thesis
    proof (cases "loop initial_state transactions")
      case (Inl e)
      with False loop_error[OF Inl] show ?thesis by (simp add: transform_def)
    next
      case (Inr st)
      from loop_initial_nonempty[OF False Inr] have "make_summary st \<noteq> Inl ZeroDivisionError"
        by (rule make_summary_nonempty(1))
      with False Inr show ?thesis
        by (auto simp: transform_def split: sum.splits)
    qed
  qed
next
  fix st assume a: "transactions \<noteq> [] \<and> loop initial_state transactions = Inr st"
  have ne: "transformed st \<noteq> []"
    using loop_initial_nonempty[OF conjunct1[OF a] conjunct2[OF a]] .
  then show "transformed st \<noteq> []" .
  from ne show "make_summary st \<noteq> Inl ZeroDivisionError" by (rule make_summary_nonempty(1))
next
  fix out s assume tr: "transform transactions = Inr (WithSummary out s)"
  then have ne: "transactions \<noteq> []" by (auto simp: transform_def)
  with tr obtain st where lp: "loop initial_state transactions = Inr st"
    and ms: "make_summary st = Inr s" and out: "out = transformed st"
    by (auto simp: transform_def split: sum.splits)
  from loop_initial_nonempty[OF ne lp] have tne: "transformed st \<noteq> []" .
  from make_summary_nonempty(2)[OF tne ms] have
    s: "total_transactions s = length (transformed st)" "total_amount s = total st"
       "divide_by_len (total st) (length (transformed st)) = Inr (average_amount s)"
    by simp_all
  from tne s out show "0 < total_transactions s" by simp
  from s out show "total_transactions s = length out" by simp
  from s show "divide_by_len (total_amount s) (total_transactions s) = Inr (average_amount s)"
    by simp
  from tne s(3) show "\<exists>q. average_amount s = PFloat q"
    using divide_by_len_pos(2)[of "length (transformed st)" "total st" "average_amount s"]
    by simp
qed

theorem average_division_safe_witness:
  "\<exists>out s. transform scenario = Inr (WithSummary out s)
      \<and> 0 < total_transactions s \<and> total_transactions s = length out
      \<and> divide_by_len (total_amount s) (total_transactions s) = Inr (average_amount s)
      \<and> (\<exists>q. average_amount s = PFloat q)"
proof -
  from transform_raw[OF scenario_nonempty scenario_all_raw] obtain out s where
    "transform scenario = Inr (WithSummary out s)" by blast
  with average_division_safe[of scenario] show ?thesis by blast
qed

section \<open>Counters\<close>

lemma increment_present:
  assumes "k \<in> fst ` set cs" "distinct (map fst cs)"
  shows "increment cs k = map (\<lambda>e. (fst e, if fst e = k then snd e + 1 else snd e)) cs"
  using assms
proof (induction cs)
  case Nil
  then show ?case by simp
next
  case (Cons p cs)
  show ?case
  proof (cases "fst p = k")
    case True
    with Cons.prems(2) have "k \<notin> fst ` set cs" by auto
    then have "map (\<lambda>e. (fst e, if fst e = k then snd e + 1 else snd e)) cs = cs"
      by (induction cs) auto
    with True show ?thesis
      by (cases p) (simp add: increment_def)
  next
    case False
    with Cons.prems have "k \<in> fst ` set cs" "distinct (map fst cs)" by auto
    from Cons.IH[OF this] False show ?thesis
      by (simp add: increment_def)
  qed
qed

lemma dict_set_absent: "k \<notin> fst ` set d \<Longrightarrow> dict_set k v d = d @ [(k, v)]"
  by (induction d) auto

lemma increment_absent:
  assumes "k \<notin> fst ` set cs"
  shows "increment cs k = cs @ [(k, 1)]"
proof -
  from assms have "map_of cs k = None" by (simp add: map_of_eq_None_iff)
  with assms show ?thesis by (simp add: increment_def dict_set_absent)
qed

lemma first_seen_set: "set (first_seen xs) = set xs"
  by (induction xs) auto

lemma first_seen_distinct: "distinct (first_seen xs)"
  by (induction xs) (auto simp: first_seen_set)

lemma foldl_increment:
  assumes "distinct (map fst cs)"
  shows "foldl increment cs ks =
           map (\<lambda>e. (fst e, snd e + count_list ks (fst e))) cs
           @ map (\<lambda>k. (k, count_list ks k)) (filter (\<lambda>k. k \<notin> fst ` set cs) (first_seen ks))"
  using assms
proof (induction ks arbitrary: cs)
  case Nil
  then show ?case by simp
next
  case (Cons k ks)
  show ?case
  proof (cases "k \<in> fst ` set cs")
    case True
    let ?cs' = "map (\<lambda>e. (fst e, if fst e = k then snd e + 1 else snd e)) cs"
    have inc: "increment cs k = ?cs'" by (rule increment_present[OF True Cons.prems])
    have keys: "map fst ?cs' = map fst cs" by (simp add: comp_def)
    have d: "distinct (map fst ?cs')" unfolding keys using Cons.prems .
    have keys': "fst ` set ?cs' = fst ` set cs"
      using keys by (metis list.set_map)
    have f: "filter (\<lambda>x. x \<notin> fst ` set cs) (filter (\<lambda>y. y \<noteq> k) (first_seen ks))
          = filter (\<lambda>x. x \<notin> fst ` set cs) (first_seen ks)"
      using True by (auto intro!: filter_cong)
    have m: "map (\<lambda>x. (x, count_list (k # ks) x)) (filter (\<lambda>x. x \<notin> fst ` set cs) (first_seen ks))
          = map (\<lambda>x. (x, count_list ks x)) (filter (\<lambda>x. x \<notin> fst ` set cs) (first_seen ks))"
      using True by (auto intro!: map_cong)
    show ?thesis
      using Cons.IH[OF d] True inc keys' f m by (simp add: comp_def)
  next
    case False
    have inc: "increment cs k = cs @ [(k, 1)]" by (rule increment_absent[OF False])
    have d: "distinct (map fst (cs @ [(k, 1)]))" using Cons.prems False by simp
    have f: "filter (\<lambda>x. x \<notin> fst ` set (cs @ [(k, 1::nat)])) (first_seen ks)
          = filter (\<lambda>x. x \<notin> fst ` set cs) (filter (\<lambda>y. y \<noteq> k) (first_seen ks))"
      by (auto intro!: filter_cong)
    have m: "map (\<lambda>x. (x, count_list (k # ks) x))
               (filter (\<lambda>x. x \<notin> fst ` set cs) (filter (\<lambda>y. y \<noteq> k) (first_seen ks)))
          = map (\<lambda>x. (x, count_list ks x))
               (filter (\<lambda>x. x \<notin> fst ` set cs) (filter (\<lambda>y. y \<noteq> k) (first_seen ks)))"
      by (auto intro!: map_cong)
    have c: "map (\<lambda>e. (fst e, snd e + count_list (k # ks) (fst e))) cs
          = map (\<lambda>e. (fst e, snd e + count_list ks (fst e))) cs"
      using False by (auto intro!: map_cong)
    show ?thesis
      using Cons.IH[OF d] False inc f m c by simp
  qed
qed

lemma foldl_increment_empty: "foldl increment [] ks = occurrences ks"
  using foldl_increment[of "[]" ks] by (simp add: occurrences_def)
section \<open>Ranking\<close>

lemma first_index_Cons:
  "first_index (x # xs) y = (if y = x then 0 else Suc (first_index xs y))"
  by (auto simp: first_index_def)

lemma first_seen_sorted:
  "sorted_wrt (\<lambda>a b. first_index ks a < first_index ks b) (first_seen ks)"
proof (induction ks)
  case Nil
  then show ?case by simp
next
  case (Cons x xs)
  have "sorted_wrt (\<lambda>a b. first_index xs a < first_index xs b)
          (filter (\<lambda>y. y \<noteq> x) (first_seen xs))"
    using Cons.IH by (rule sorted_wrt_filter)
  then have "sorted_wrt (\<lambda>a b. first_index (x # xs) a < first_index (x # xs) b)
          (filter (\<lambda>y. y \<noteq> x) (first_seen xs))"
    by (rule sorted_wrt_mono_rel[rotated]) (auto simp: first_index_Cons)
  then show ?case
    by (auto simp: first_index_Cons)
qed

lemma occurrences_sorted:
  "sorted_wrt (\<lambda>a b. first_index ks (fst a) < first_index ks (fst b)) (occurrences ks)"
  using first_seen_sorted[of ks] by (simp add: occurrences_def sorted_wrt_map)

lemma occurrences_keys: "map fst (occurrences ks) = first_seen ks"
  by (simp add: occurrences_def comp_def)

lemma occurrences_entry:
  "e \<in> set (occurrences ks) \<longleftrightarrow> fst e \<in> set ks \<and> snd e = count_list ks (fst e)"
  by (cases e) (auto simp: occurrences_def first_seen_set)

lemma occurrences_length: "length (occurrences ks) = card (set ks)"
proof -
  have "length (occurrences ks) = length (first_seen ks)" by (simp add: occurrences_def)
  also have "\<dots> = card (set (first_seen ks))"
    by (simp add: distinct_card first_seen_distinct)
  finally show ?thesis by (simp add: first_seen_set)
qed

text \<open>
  Insertion sort on the negated count keeps the order of the input among equal counts:
  a list in first-seen order comes out in ranking order.
\<close>

lemma insort_ranks:
  assumes "sorted_wrt (ranks_before ks) ys"
    and "\<forall>y \<in> set ys. first_index ks (fst x) < first_index ks (fst y)"
  shows "sorted_wrt (ranks_before ks) (insort_key (\<lambda>e. - int (snd e)) x ys)"
  using assms
proof (induction ys)
  case Nil
  then show ?case by simp
next
  case (Cons y ys)
  show ?case
  proof (cases "snd y \<le> snd x")
    case True
    have "ranks_before ks x z" if "z \<in> set (y # ys)" for z
    proof -
      have "snd z \<le> snd y"
        using that Cons.prems(1) by (auto simp: ranks_before_def)
      with True have "snd z \<le> snd x" by simp
      moreover have "first_index ks (fst x) < first_index ks (fst z)"
        using that Cons.prems(2) by auto
      ultimately show ?thesis by (auto simp: ranks_before_def)
    qed
    with True Cons.prems(1) show ?thesis by simp
  next
    case False
    then have yx: "ranks_before ks y x" by (simp add: ranks_before_def)
    have "sorted_wrt (ranks_before ks) (insort_key (\<lambda>e. - int (snd e)) x ys)"
      using Cons.IH Cons.prems by simp
    moreover have "ranks_before ks y z" if "z \<in> set (insort_key (\<lambda>e. - int (snd e)) x ys)" for z
      using that yx Cons.prems(1) by (auto simp: set_insort_key)
    ultimately show ?thesis using False by simp
  qed
qed

lemma sorted_by_count_ranks:
  assumes "sorted_wrt (\<lambda>a b. first_index ks (fst a) < first_index ks (fst b)) xs"
  shows "sorted_wrt (ranks_before ks) (sorted_by_count xs)"
  using assms
proof (induction xs)
  case Nil
  then show ?case by (simp add: sorted_by_count_def)
next
  case (Cons x xs)
  then have "sorted_wrt (ranks_before ks) (sort_key (\<lambda>e. - int (snd e)) xs)"
    by (simp add: sorted_by_count_def)
  moreover have "\<forall>y \<in> set (sort_key (\<lambda>e. - int (snd e)) xs).
      first_index ks (fst x) < first_index ks (fst y)"
    using Cons.prems by simp
  ultimately show ?case
    unfolding sorted_by_count_def sort_key_simps by (rule insort_ranks)
qed

lemma ranks_before_count: "ranks_before ks a b \<Longrightarrow> snd b \<le> snd a"
  by (auto simp: ranks_before_def)

lemma dict_of_distinct:
  assumes "distinct (map fst ps)"
  shows "dict_of ps = ps"
proof -
  have "foldl (\<lambda>d p. dict_set (fst p) (snd p) d) d ps = d @ ps"
    if "distinct (map fst (d @ ps))" for d :: "('a \<times> 'b) list"
    using that
  proof (induction ps arbitrary: d)
    case Nil
    then show ?case by simp
  next
    case (Cons p ps)
    from Cons.prems have "fst p \<notin> fst ` set d" by auto
    then have "dict_set (fst p) (snd p) d = d @ [p]" by (simp add: dict_set_absent)
    moreover from Cons.prems have "distinct (map fst ((d @ [p]) @ ps))" by simp
    ultimately show ?case using Cons.IH[of "d @ [p]"] by simp
  qed
  from this[of "[]"] assms show ?thesis by (simp add: dict_of_def)
qed

lemma sorted_by_count_set: "set (sorted_by_count xs) = set xs"
  by (simp add: sorted_by_count_def)

lemma sorted_by_count_length: "length (sorted_by_count xs) = length xs"
  by (simp add: sorted_by_count_def)

lemma sorted_by_count_keys_distinct:
  assumes "distinct (map fst xs)"
  shows "distinct (map fst (sorted_by_count xs))"
  using assms by (simp add: distinct_map sorted_by_count_def)

lemma top5_occurrences:
  "top5 (occurrences ks) = take 5 (sorted_by_count (occurrences ks))"
proof -
  have "distinct (map fst (occurrences ks))"
    by (simp add: occurrences_keys first_seen_distinct)
  then have "distinct (map fst (sorted_by_count (occurrences ks)))"
    by (rule sorted_by_count_keys_distinct)
  then have "distinct (map fst (take 5 (sorted_by_count (occurrences ks))))"
    by (simp add: take_map[symmetric] distinct_take)
  then show ?thesis by (simp add: top5_def dict_of_distinct)
qed

lemma top5_top_five_of: "top_five_of ks (top5 (occurrences ks))"
proof -
  let ?s = "sorted_by_count (occurrences ks)"
  let ?t = "take 5 ?s"
  have t: "top5 (occurrences ks) = ?t" by (rule top5_occurrences)
  have set_s: "set ?s = set (occurrences ks)" by (rule sorted_by_count_set)
  have len_s: "length ?s = card (set ks)"
    by (simp add: sorted_by_count_length occurrences_length)
  have ds: "distinct (map fst ?s)"
    by (rule sorted_by_count_keys_distinct) (simp add: occurrences_keys first_seen_distinct)
  have rs: "sorted_wrt (ranks_before ks) ?s"
    by (rule sorted_by_count_ranks) (rule occurrences_sorted)
  have sub: "set ?t \<subseteq> set (occurrences ks)"
    using set_take_subset[of 5 ?s] set_s by simp
  have 1: "length ?t \<le> 5" by simp
  have 2: "length ?t = min 5 (card (set ks))" using len_s by simp
  have 3: "distinct (map fst ?t)" using ds by (simp add: take_map[symmetric] distinct_take)
  have 4: "\<forall>e \<in> set ?t. fst e \<in> set ks \<and> snd e = count_list ks (fst e)"
    using sub occurrences_entry by blast
  have 6: "sorted_wrt (ranks_before ks) ?t" using rs by (rule sorted_wrt_take)
  have 5: "sorted_wrt (\<lambda>a b. snd b \<le> snd a) ?t"
    using 6 by (rule sorted_wrt_mono_rel[rotated]) (simp add: ranks_before_count)
  have 7: "\<forall>k \<in> set ks. k \<notin> fst ` set ?t \<longrightarrow> (\<forall>e \<in> set ?t. count_list ks k \<le> snd e)"
  proof (intro ballI impI)
    fix k e assume k: "k \<in> set ks" "k \<notin> fst ` set ?t" and e: "e \<in> set ?t"
    from k(1) have "(k, count_list ks k) \<in> set ?s"
      unfolding set_s by (simp add: occurrences_entry)
    moreover have "set ?s = set ?t \<union> set (drop 5 ?s)"
      by (metis append_take_drop_id set_append)
    moreover from k(2) have "(k, count_list ks k) \<notin> set ?t" by force
    ultimately have d: "(k, count_list ks k) \<in> set (drop 5 ?s)" by blast
    have "sorted_wrt (ranks_before ks) (?t @ drop 5 ?s)" using rs by simp
    then have "ranks_before ks e (k, count_list ks k)"
      unfolding sorted_wrt_append using e d by blast
    then show "count_list ks k \<le> snd e" by (auto dest: ranks_before_count)
  qed
  have 8: "card (set ks) \<le> 5 \<longrightarrow> fst ` set ?t = set ks"
  proof
    assume "card (set ks) \<le> 5"
    with len_s have "?t = ?s" by simp
    then have "fst ` set ?t = fst ` set (occurrences ks)" using set_s by simp
    also have "\<dots> = set (first_seen ks)"
      using occurrences_keys[of ks] by (metis list.set_map)
    finally show "fst ` set ?t = set ks" by (simp add: first_seen_set)
  qed
  show ?thesis
    unfolding top_five_of_def t using 1 2 3 4 5 6 7 8 by blast
qed
section \<open>The derived fields\<close>

lemma add_fields_raw_result:
  assumes "map_of t ''amount'' = Some (Num a)" "map_of t ''timestamp'' = Some (Str ts)"
  shows "add_fields t = Inr
    (case strptime ts of
       Inr dt \<Rightarrow>
         dict_set ''day_of_week'' (Str (strftime_A dt))
          (dict_set ''time'' (Str (strftime_time dt))
            (dict_set ''date'' (Str (strftime_date dt))
              (dict_set ''amount_usd'' (Str (''$'' @ format_2f a)) t)))
     | Inl e \<Rightarrow>
         dict_set ''day_of_week'' (Str ''Unknown'')
          (dict_set ''time'' (Str ''Unknown'')
            (dict_set ''date'' (Str ''Unknown'')
              (dict_set ''amount_usd'' (Str (''$'' @ format_2f a)) t))))"
  using assms
  by (simp add: add_fields_def parse_timestamp_def dict_get_def map_of_dict_set split: sum.splits)

lemma add_fields_amount_usd:
  assumes "add_fields t = Inr t'" "map_of t ''amount'' = Some (Num a)"
    "map_of t ''timestamp'' = Some (Str ts)"
  shows "map_of t' ''amount_usd'' = Some (Str (''$'' @ format_2f a))"
  using assms(1) unfolding add_fields_raw_result[OF assms(2,3)]
  by (auto simp: map_of_dict_set split: sum.splits)

lemma add_fields_unknown:
  assumes "add_fields t = Inr t'" "map_of t ''amount'' = Some (Num a)"
    "map_of t ''timestamp'' = Some (Str ts)" "strptime ts = Inl e"
  shows "map_of t' ''date'' = Some (Str ''Unknown'')"
    and "map_of t' ''time'' = Some (Str ''Unknown'')"
    and "map_of t' ''day_of_week'' = Some (Str ''Unknown'')"
  using assms(1,4) unfolding add_fields_raw_result[OF assms(2,3)]
  by (auto simp: map_of_dict_set)


text \<open>The state in which the loop ends on well-formed records.\<close>

lemma loop_initial_raw:
  assumes "txs \<noteq> []" "list_all raw_record txs"
  shows "\<exists>out. list_all2 (\<lambda>t t'. add_fields t = Inr t') txs out
     \<and> loop initial_state txs = Inr \<lparr>transformed = out,
               total = PFloat (foldl fadd (Finite False 0) (map amount_of txs)),
               sender_counts = occurrences (map (value_of ''sender'') txs),
               recipient_counts = occurrences (map (value_of ''recipient'') txs)\<rparr>"
proof -
  have "float_total (total initial_state)" by (simp add: initial_state_def float_total_def)
  from loop_raw[OF assms(2) this] obtain out where
    out: "list_all2 (\<lambda>t t'. add_fields t = Inr t') txs out"
    and lp: "loop initial_state txs = Inr \<lparr>transformed = out,
               total = running_sum (PInt 0) (map amount_of txs),
               sender_counts = foldl increment [] (map (value_of ''sender'') txs),
               recipient_counts = foldl increment [] (map (value_of ''recipient'') txs)\<rparr>"
    by (auto simp: initial_state_def)
  from assms(1) have rs: "running_sum (PInt 0) (map amount_of txs)
      = PFloat (foldl fadd (Finite False 0) (map amount_of txs))"
    by (cases txs) (simp_all add: running_sum_def)
  from out lp show ?thesis
    unfolding rs foldl_increment_empty by blast
qed

lemma transform_from_loop:
  assumes "txs \<noteq> []" "loop initial_state txs = Inr st" "\<exists>a. total st = PFloat a"
  shows "\<exists>s. transform txs = Inr (WithSummary (transformed st) s)
            \<and> make_summary st = Inr s
            \<and> total_transactions s = length txs
            \<and> total_amount s = total st
            \<and> top_senders s = top5 (sender_counts st)
            \<and> top_recipients s = top5 (recipient_counts st)
            \<and> divide_by_len (total st) (length txs) = Inr (average_amount s)"
proof -
  from loop_length[OF assms(2)] have len: "length (transformed st) = length txs"
    by (simp add: initial_state_def)
  with assms(1) have ne: "transformed st \<noteq> []" by auto
  from assms(3) obtain a where a: "total st = PFloat a" by blast
  from assms(1) obtain q where q: "truediv a (length txs) = Inr q"
    using truediv_pos[of "length txs" a] by auto
  show ?thesis
    using assms(1,2) ne len a q by (simp add: transform_def make_summary_def)
qed

section \<open>Records whose timestamp does not parse\<close>

text \<open>
  C4. When the timestamp of a record does not parse (\<open>strptime\<close> raises \<open>ValueError\<close>:
  the text does not match the pattern, or the date or time it names does not exist),
  the record's \<open>date\<close>, \<open>time\<close> and \<open>day_of_week\<close> are the text \<open>Unknown\<close>. The record
  is in the output at its position, with its original fields, and the aggregates run
  over all records, this one among them: the count of the summary is the length of
  the input, the total is the running sum of all amounts, and the counters hold the
  occurrence count of every sender and recipient of the input.
\<close>

theorem unparsed_timestamp_unknown:
  assumes "transactions \<noteq> []" "list_all raw_record transactions" "i < length transactions"
    and "map_of (transactions ! i) ''timestamp'' = Some (Str ts)" "strptime ts = Inl e"
  shows "\<exists>st s. loop initial_state transactions = Inr st
           \<and> transform transactions = Inr (WithSummary (transformed st) s)
           \<and> length (transformed st) = length transactions
           \<and> map_of (transformed st ! i) ''date'' = Some (Str ''Unknown'')
           \<and> map_of (transformed st ! i) ''time'' = Some (Str ''Unknown'')
           \<and> map_of (transformed st ! i) ''day_of_week'' = Some (Str ''Unknown'')
           \<and> map_of (transformed st ! i) ''sender'' = map_of (transactions ! i) ''sender''
           \<and> map_of (transformed st ! i) ''recipient'' = map_of (transactions ! i) ''recipient''
           \<and> map_of (transformed st ! i) ''amount'' = map_of (transactions ! i) ''amount''
           \<and> map_of (transformed st ! i) ''timestamp'' = Some (Str ts)
           \<and> total_transactions s = length transactions
           \<and> total st = PFloat (foldl fadd (Finite False 0) (map amount_of transactions))
           \<and> total_amount s = total st
           \<and> sender_counts st = occurrences (map (value_of ''sender'') transactions)
           \<and> recipient_counts st = occurrences (map (value_of ''recipient'') transactions)
           \<and> top_senders s = top5 (sender_counts st)
           \<and> top_recipients s = top5 (recipient_counts st)
           \<and> (value_of ''sender'' (transactions ! i),
                count_list (map (value_of ''sender'') transactions)
                  (value_of ''sender'' (transactions ! i))) \<in> set (sender_counts st)
           \<and> (value_of ''recipient'' (transactions ! i),
                count_list (map (value_of ''recipient'') transactions)
                  (value_of ''recipient'' (transactions ! i))) \<in> set (recipient_counts st)"
proof -
  from loop_initial_raw[OF assms(1,2)] obtain out where
    out: "list_all2 (\<lambda>t t'. add_fields t = Inr t') transactions out"
    and lp: "loop initial_state transactions = Inr \<lparr>transformed = out,
               total = PFloat (foldl fadd (Finite False 0) (map amount_of transactions)),
               sender_counts = occurrences (map (value_of ''sender'') transactions),
               recipient_counts = occurrences (map (value_of ''recipient'') transactions)\<rparr>"
      (is "_ = Inr ?st")
    by blast
  have "\<exists>a. total ?st = PFloat a" by simp
  from transform_from_loop[OF assms(1) lp this] obtain s where
    s: "transform transactions = Inr (WithSummary (transformed ?st) s)"
       "total_transactions s = length transactions" "total_amount s = total ?st"
       "top_senders s = top5 (sender_counts ?st)" "top_recipients s = top5 (recipient_counts ?st)"
    by blast
  have af: "add_fields (transactions ! i) = Inr (out ! i)"
    using list_all2_nthD[OF out assms(3)] .
  from assms(2,3) have "raw_record (transactions ! i)" by (simp add: list_all_length)
  then obtain a where a: "map_of (transactions ! i) ''amount'' = Some (Num a)"
    by (auto elim: raw_recordE)
  note unk = add_fields_unknown[OF af a assms(4,5)]
  note fr = add_fields_frame_derived[OF af]
  have len: "length out = length transactions" using out by (simp add: list_all2_lengthD)
  have mem: "(value_of k (transactions ! i),
                count_list (map (value_of k) transactions) (value_of k (transactions ! i)))
              \<in> set (occurrences (map (value_of k) transactions))" for k
    using assms(3) by (simp add: occurrences_entry)
  show ?thesis
    apply (rule exI[of _ ?st], rule exI[of _ s])
    using lp s len unk fr original_keys_not_derived assms(4) mem
    by simp
qed

lemma strptime_bad_timestamp: "strptime ''bad-timestamp'' = Inl ValueError"
  by (simp add: strptime_def format_regex_def re_Y_def is_digit_def)

theorem unparsed_timestamp_unknown_witness:
  "\<exists>st s. loop initial_state scenario = Inr st
           \<and> transform scenario = Inr (WithSummary (transformed st) s)
           \<and> length (transformed st) = length scenario
           \<and> map_of (transformed st ! 2) ''date'' = Some (Str ''Unknown'')
           \<and> map_of (transformed st ! 2) ''time'' = Some (Str ''Unknown'')
           \<and> map_of (transformed st ! 2) ''day_of_week'' = Some (Str ''Unknown'')
           \<and> map_of (transformed st ! 2) ''sender'' = map_of (scenario ! 2) ''sender''
           \<and> map_of (transformed st ! 2) ''recipient'' = map_of (scenario ! 2) ''recipient''
           \<and> map_of (transformed st ! 2) ''amount'' = map_of (scenario ! 2) ''amount''
           \<and> map_of (transformed st ! 2) ''timestamp'' = Some (Str ''bad-timestamp'')
           \<and> total_transactions s = length scenario
           \<and> total st = PFloat (foldl fadd (Finite False 0) (map amount_of scenario))
           \<and> total_amount s = total st
           \<and> sender_counts st = occurrences (map (value_of ''sender'') scenario)
           \<and> recipient_counts st = occurrences (map (value_of ''recipient'') scenario)
           \<and> top_senders s = top5 (sender_counts st)
           \<and> top_recipients s = top5 (recipient_counts st)
           \<and> (value_of ''sender'' (scenario ! 2),
                count_list (map (value_of ''sender'') scenario)
                  (value_of ''sender'' (scenario ! 2))) \<in> set (sender_counts st)
           \<and> (value_of ''recipient'' (scenario ! 2),
                count_list (map (value_of ''recipient'') scenario)
                  (value_of ''recipient'' (scenario ! 2))) \<in> set (recipient_counts st)"
proof -
  have i: "(2::nat) < length scenario" by (simp add: scenario_def)
  have ts: "map_of (scenario ! 2) ''timestamp'' = Some (Str ''bad-timestamp'')"
    by (simp add: scenario_def raw_def)
  show ?thesis
    using unparsed_timestamp_unknown[OF scenario_nonempty scenario_all_raw i ts
        strptime_bad_timestamp] .
qed

section \<open>The five most frequent senders and recipients\<close>

text \<open>
  C2. For every non-empty input the \<open>top_senders\<close> mapping of the summary, and likewise
  the \<open>top_recipients\<close> mapping, has at most five entries, each a key of the input with
  its occurrence count; the entries are in descending order of count, keys of equal
  count in the order in which they were first met; a key that is left out occurs no
  more often than any key that is in; and when the input has no more than five
  distinct keys, all of them are in.
\<close>

theorem top_five_senders_recipients:
  assumes "transactions \<noteq> []" "list_all raw_record transactions"
  shows "\<exists>out s. transform transactions = Inr (WithSummary out s)
           \<and> top_five_of (map (value_of ''sender'') transactions) (top_senders s)
           \<and> top_five_of (map (value_of ''recipient'') transactions) (top_recipients s)"
proof -
  from loop_initial_raw[OF assms] obtain out where
    lp: "loop initial_state transactions = Inr \<lparr>transformed = out,
               total = PFloat (foldl fadd (Finite False 0) (map amount_of transactions)),
               sender_counts = occurrences (map (value_of ''sender'') transactions),
               recipient_counts = occurrences (map (value_of ''recipient'') transactions)\<rparr>"
      (is "_ = Inr ?st")
    by blast
  have "\<exists>a. total ?st = PFloat a" by simp
  from transform_from_loop[OF assms(1) lp this] obtain s where
    s: "transform transactions = Inr (WithSummary (transformed ?st) s)"
       "top_senders s = top5 (sender_counts ?st)" "top_recipients s = top5 (recipient_counts ?st)"
    by blast
  show ?thesis
    apply (rule exI[of _ "transformed ?st"], rule exI[of _ s])
    using s by (simp add: top5_top_five_of)
qed

theorem top_five_senders_recipients_witness:
  "\<exists>out s. transform scenario = Inr (WithSummary out s)
           \<and> top_five_of (map (value_of ''sender'') scenario) (top_senders s)
           \<and> top_five_of (map (value_of ''recipient'') scenario) (top_recipients s)"
  using top_five_senders_recipients[OF scenario_nonempty scenario_all_raw] .

section \<open>Digits and padded numbers\<close>

lemma of_char_digit_char: "d < 10 \<Longrightarrow> (of_char (digit_char d) :: nat) = 48 + d"
  by (simp add: digit_char_def)

lemma is_digit_digit_char: "d < 10 \<Longrightarrow> is_digit (digit_char d)"
  by (simp add: is_digit_def of_char_digit_char)

lemma digit_val_digit_char: "d < 10 \<Longrightarrow> digit_val (digit_char d) = d"
  by (simp add: digit_val_def of_char_digit_char)



lemma digit_char_0: "digit_char 0 = CHR ''0''"
  by (simp add: digit_char_def char_of_eq_iff)

lemma decimal_1: "n < 10 \<Longrightarrow> decimal n = [digit_char n]"
  by (simp add: decimal.simps)

lemma decimal_2: "10 \<le> n \<Longrightarrow> n < 100 \<Longrightarrow> decimal n = [digit_char (n div 10), digit_char (n mod 10)]"
  by (subst decimal.simps) (simp add: decimal_1)

lemma decimal_3:
  "100 \<le> n \<Longrightarrow> n < 1000 \<Longrightarrow>
     decimal n = [digit_char (n div 100), digit_char (n div 10 mod 10), digit_char (n mod 10)]"
  by (subst decimal.simps) (simp add: decimal_2 div_mult2_eq[symmetric])

lemma decimal_4:
  "1000 \<le> n \<Longrightarrow> n < 10000 \<Longrightarrow>
     decimal n = [digit_char (n div 1000), digit_char (n div 100 mod 10),
                  digit_char (n div 10 mod 10), digit_char (n mod 10)]"
  by (subst decimal.simps) (simp add: decimal_3 div_mult2_eq[symmetric])

lemma zero_pad_2:
  assumes "n < 100"
  shows "zero_pad 2 n = [digit_char (n div 10), digit_char (n mod 10)]"
proof (cases "n < 10")
  case True
  then show ?thesis by (simp add: zero_pad_def decimal_1 digit_char_0)
next
  case False
  with assms show ?thesis by (simp add: zero_pad_def decimal_2)
qed

lemma replicate_small:
  "replicate 3 x = [x, x, x]" "replicate 2 x = [x, x]"
  by (simp_all add: numeral_eq_Suc)

lemma zero_pad_4:
  assumes "n < 10000"
  shows "zero_pad 4 n = [digit_char (n div 1000), digit_char (n div 100 mod 10),
                         digit_char (n div 10 mod 10), digit_char (n mod 10)]"
proof -
  note w = replicate_small
  consider "n < 10" | "10 \<le> n" "n < 100" | "100 \<le> n" "n < 1000" | "1000 \<le> n"
    by linarith
  then show ?thesis
  proof cases
    case 1
    then show ?thesis by (simp add: zero_pad_def decimal_1 digit_char_0 w)
  next
    case 2
    then show ?thesis by (simp add: zero_pad_def decimal_2 digit_char_0 w)
  next
    case 3
    then show ?thesis by (simp add: zero_pad_def decimal_3 digit_char_0 w)
  next
    case 4
    with assms show ?thesis by (simp add: zero_pad_def decimal_4)
  qed
qed


section \<open>Parsing what \<open>strftime\<close> writes\<close>



lemma match_Lit: "match_items (Lit c # its) (c # r) = match_items its r"
  by simp











lemma two_digits: "10 * (n div 10) + n mod 10 = (n::nat)"
  by simp


section \<open>Date and time recombined\<close>

lemmas strptime_eval =
  strptime_def format_regex_def re_Y_def re_m_def re_d_def re_H_def re_M_def re_S_def
  is_digit_def is_char_def in_range_def is_space_def py_int_def digit_val_def
  datetime_new_def days_in_month_def is_leap_def




text \<open>
  The recombined text is the zero-padded form with one blank. A timestamp that parses
  without being in that form, such as \<open>2023-1-2 3:4:5\<close>, is recombined to a different
  text that names the same date and time.
\<close>

lemma recombined_text_is_canonical:
  "strptime ''2023-1-2 3:4:5''
     = Inr \<lparr>year = 2023, month = 1, day = 2, hour = 3, minute = 4, second = 5\<rparr>"
  "strftime_date \<lparr>year = 2023, month = 1, day = 2, hour = 3, minute = 4, second = 5\<rparr>
     @ '' '' @ strftime_time \<lparr>year = 2023, month = 1, day = 2, hour = 3, minute = 4, second = 5\<rparr>
     = ''2023-01-02 03:04:05''"
  by (simp_all add: strptime_eval strftime_date_def strftime_time_def zero_pad_2 zero_pad_4
        digit_char_def char_of_eq_iff)

section \<open>A failed extraction ends the run\<close>

lemma read_rows_length:
  assumes "read_rows float acc rs = Some out"
  shows "length out = length acc + length rs"
  using assms
proof (induction rs arbitrary: acc)
  case Nil
  then show ?case by simp
next
  case (Cons r rs)
  then show ?case
    by (cases r) (auto split: sum.splits)
qed

lemma extract_stage_empty_iff:
  "fst (extract_stage float f w) = [] \<longleftrightarrow>
     (sources w f = Missing \<or> sources w f = Unopenable
      \<or> (\<exists>rs. sources w f = Rows rs \<and> (read_rows float [] rs = None \<or> rs = [])))"
proof (cases "sources w f")
  case Missing
  then show ?thesis by (simp add: extract_stage_def call_def)
next
  case Unopenable
  then show ?thesis by (simp add: extract_stage_def call_def)
next
  case (Rows rs)
  show ?thesis
  proof (cases "read_rows float [] rs")
    case None
    with Rows show ?thesis by (simp add: extract_stage_def call_def)
  next
    case (Some out)
    from read_rows_length[OF Some] have "out = [] \<longleftrightarrow> rs = []" by auto
    with Rows Some show ?thesis by (simp add: extract_stage_def call_def)
  qed
qed

lemma sources_call: "sources (call s w) = sources w"
  by (simp add: call_def)

lemma extract_stage_world:
  "\<exists>m. snd (extract_stage float f w) = print m (call Extract w)"
  by (cases "sources w f")
     (auto simp: extract_stage_def Let_def sources_call split: option.splits)

text \<open>
  C7. Whenever the extraction yields an empty sequence, which it does exactly when the
  input file is missing, when opening or reading it or converting a row raises, and
  when the file has no rows, \<open>main\<close> prints that the pipeline failed and returns:
  \<open>extract\<close> is the only stage that was called, and the files written are those
  written before.
\<close>

theorem empty_extraction_halts:
  assumes "fst (extract_stage float ''transactions.csv''
                  (print Rule (print Started (print Rule w)))) = []"
  shows "(sources w ''transactions.csv'' = Missing \<or> sources w ''transactions.csv'' = Unopenable
          \<or> (\<exists>rs. sources w ''transactions.csv'' = Rows rs
                \<and> (read_rows float [] rs = None \<or> rs = [])))
       \<and> (\<exists>w' m. main float w = (w', None)
             \<and> calls w' = calls w @ [Extract]
             \<and> written w' = written w
             \<and> console w' = console w @ [Rule, Started, Rule, m, PipelineFailed])"
proof
  let ?w1 = "print Rule (print Started (print Rule w))"
  have src: "sources ?w1 = sources w" by (simp add: print_def)
  from assms show "sources w ''transactions.csv'' = Missing
      \<or> sources w ''transactions.csv'' = Unopenable
      \<or> (\<exists>rs. sources w ''transactions.csv'' = Rows rs \<and> (read_rows float [] rs = None \<or> rs = []))"
    unfolding extract_stage_empty_iff src .
  from extract_stage_world[of float "''transactions.csv''" ?w1] obtain m where
    m: "snd (extract_stage float ''transactions.csv'' ?w1) = print m (call Extract ?w1)"
    by blast
  let ?w' = "print PipelineFailed (snd (extract_stage float ''transactions.csv'' ?w1))"
  have "main float w = (?w', None)"
    using assms by (simp add: main_def Let_def split_beta)
  moreover have "calls ?w' = calls w @ [Extract]" "written ?w' = written w"
    "console ?w' = console w @ [Rule, Started, Rule, m, PipelineFailed]"
    unfolding m by (simp_all add: print_def call_def)
  ultimately show "\<exists>w' m. main float w = (w', None)
             \<and> calls w' = calls w @ [Extract]
             \<and> written w' = written w
             \<and> console w' = console w @ [Rule, Started, Rule, m, PipelineFailed]"
    by blast
qed

theorem empty_extraction_halts_witness:
  "(sources no_input ''transactions.csv'' = Missing
      \<or> sources no_input ''transactions.csv'' = Unopenable
      \<or> (\<exists>rs. sources no_input ''transactions.csv'' = Rows rs
            \<and> (read_rows (\<lambda>t. None) [] rs = None \<or> rs = [])))
   \<and> (\<exists>w' m. main (\<lambda>t. None) no_input = (w', None)
         \<and> calls w' = calls no_input @ [Extract]
         \<and> written w' = written no_input
         \<and> console w' = console no_input @ [Rule, Started, Rule, m, PipelineFailed])"
proof -
  have "fst (extract_stage (\<lambda>t. None) ''transactions.csv''
               (print Rule (print Started (print Rule no_input)))) = []"
    by (simp add: extract_stage_def call_def print_def no_input_def)
  from empty_extraction_halts[OF this] show ?thesis .
qed

section \<open>The formatted amount\<close>

lemma digits_value_snoc: "digits_value (xs @ [c]) = 10 * digits_value xs + digit_val c"
  by (simp add: digits_value_def)

lemma digits_value_single: "digits_value [c] = digit_val c"
  by (simp add: digits_value_def)

lemma decimal_digits:
  "list_all is_digit (decimal n) \<and> decimal n \<noteq> [] \<and> digits_value (decimal n) = n"
proof (induction n rule: decimal.induct)
  case (1 n)
  show ?case
  proof (cases "n < 10")
    case True
    then show ?thesis
      by (simp add: decimal_1 is_digit_digit_char digits_value_single digit_val_digit_char)
  next
    case False
    have m: "n mod 10 < 10" by simp
    from False have d: "decimal n = decimal (n div 10) @ [digit_char (n mod 10)]"
      by (subst decimal.simps) simp
    from 1[OF False] show ?thesis
      unfolding d
      by (simp add: digits_value_snoc is_digit_digit_char[OF m] digit_val_digit_char[OF m])
  qed
qed

lemma round_half_even_near: "\<bar>of_int (round_half_even x) - x\<bar> \<le> 1 / 2"
proof -
  have "of_int \<lfloor>x\<rfloor> \<le> x" "x < of_int \<lfloor>x\<rfloor> + 1" by linarith+
  then show ?thesis
    by (auto simp: round_half_even_def Let_def)
qed

lemma round_half_even_nonneg: "0 \<le> x \<Longrightarrow> 0 \<le> round_half_even x"
proof -
  assume "0 \<le> x"
  then have "0 \<le> \<lfloor>x\<rfloor>" by simp
  then show ?thesis by (auto simp: round_half_even_def Let_def)
qed

text \<open>
  The shape of a finite amount under \<open>.2f\<close>: an optional minus sign, at least one
  digit, a point and exactly two digits; the digits are those of the amount in
  hundredths, rounded to the nearest integer (a tie to the even one).
\<close>

lemma format_2f_finite:
  assumes "0 \<le> q"
  shows "\<exists>ip d1 d2. format_2f (Finite neg q) = (if neg then ''-'' else '''') @ ip @ ''.'' @ [d1, d2]
           \<and> ip \<noteq> [] \<and> list_all is_digit ip \<and> is_digit d1 \<and> is_digit d2
           \<and> digits_value (ip @ [d1, d2]) = nat (round_half_even (q * 100))
           \<and> \<bar>of_nat (digits_value (ip @ [d1, d2])) / 100 - q\<bar> \<le> 1 / 200"
proof -
  define n where "n = nat (round_half_even (q * 100))"
  let ?ip = "decimal (n div 100)"
  let ?d1 = "digit_char (n mod 100 div 10)" and ?d2 = "digit_char (n mod 100 mod 10)"
  have lt: "n mod 100 < 100" "n mod 100 div 10 < 10" "n mod 100 mod 10 < 10" by simp_all
  have fmt: "format_2f (Finite neg q) = (if neg then ''-'' else '''') @ ?ip @ ''.'' @ [?d1, ?d2]"
    by (simp add: n_def[symmetric] zero_pad_2[OF lt(1)] Let_def)
  have val: "digits_value (?ip @ [?d1, ?d2]) = n"
  proof -
    have "digits_value (?ip @ [?d1, ?d2]) = digits_value ((?ip @ [?d1]) @ [?d2])" by simp
    also have "\<dots> = 10 * (10 * (n div 100) + n mod 100 div 10) + n mod 100 mod 10"
      by (simp only: digits_value_snoc decimal_digits digit_val_digit_char[OF lt(2)]
            digit_val_digit_char[OF lt(3)])
    also have "\<dots> = 100 * (n div 100) + (10 * (n mod 100 div 10) + n mod 100 mod 10)" by simp
    also have "\<dots> = 100 * (n div 100) + n mod 100" by (simp only: two_digits)
    also have "\<dots> = n" by simp
    finally show ?thesis .
  qed
  have nn: "0 \<le> round_half_even (q * 100)"
    using assms by (intro round_half_even_nonneg) simp
  then have "(of_nat n :: rat) = of_int (round_half_even (q * 100))"
    by (simp add: n_def)
  with round_half_even_near[of "q * 100"] have "\<bar>of_nat n - q * 100\<bar> \<le> 1 / 2" by simp
  then have near: "\<bar>of_nat n / 100 - q\<bar> \<le> 1 / 200" by (simp add: abs_le_iff field_simps)
  show ?thesis
    apply (rule exI[of _ ?ip], rule exI[of _ ?d1], rule exI[of _ ?d2])
    using fmt val near decimal_digits[of "n div 100"] is_digit_digit_char[OF lt(2)]
      is_digit_digit_char[OF lt(3)]
    by (simp add: n_def)
qed

lemma format_2f_example: "format_2f (Finite False (2469 / 2)) = ''1234.50''"
  by (simp add: round_half_even_def decimal.simps zero_pad_def digit_char_def char_of_eq_iff)

lemma nan_input_raw: "nan_input \<noteq> []" "list_all raw_record nan_input"
  by (simp_all add: nan_input_def raw_record_raw)

text \<open>
  C9 as the claim states it, for every record, fails on a record whose amount is
  \<open>nan\<close>: its \<open>amount_usd\<close> is \<open>$nan\<close>, with no decimal point.
\<close>

theorem amount_usd_nan_counterexample:
  "map_of (records_of (transform nan_input) ! 0) ''amount_usd'' = Some (Str ''$nan'')
   \<and> CHR ''.'' \<notin> set ''$nan''"
proof -
  from transform_raw[OF nan_input_raw] obtain out s where
    out: "list_all2 (\<lambda>t t'. add_fields t = Inr t') nan_input out"
    and tr: "transform nan_input = Inr (WithSummary out s)"
    by blast
  have i: "0 < length nan_input" by (simp add: nan_input_def)
  have af: "add_fields (nan_input ! 0) = Inr (out ! 0)"
    using list_all2_nthD[OF out i] .
  have "map_of (out ! 0) ''amount_usd'' = Some (Str (''$'' @ format_2f NaN))"
    by (rule add_fields_amount_usd[OF af]) (simp_all add: nan_input_def raw_def)
  then show ?thesis by (simp add: tr records_of_def)
qed

text \<open>
  C9, amended. For every record, \<open>amount_usd\<close> is \<open>$\<close> followed by the amount under
  the format \<open>.2f\<close>. When the amount is finite that is, after the sign, the amount
  rounded to hundredths and written with exactly two digits after the point; an amount
  that is \<open>nan\<close> or infinite gives \<open>$nan\<close>, \<open>$inf\<close> or \<open>$-inf\<close>.
\<close>

theorem amount_usd_formatted:
  assumes "transactions \<noteq> []" "list_all raw_record transactions" "i < length transactions"
    and "map_of (transactions ! i) ''amount'' = Some (Num a)" "magnitude_ok a"
  shows "\<exists>out s. transform transactions = Inr (WithSummary out s)
           \<and> map_of (out ! i) ''amount_usd'' = Some (Str (''$'' @ format_2f a))
           \<and> (\<forall>neg q. a = Finite neg q \<longrightarrow>
                 (\<exists>ip d1 d2. format_2f a = (if neg then ''-'' else '''') @ ip @ ''.'' @ [d1, d2]
                    \<and> ip \<noteq> [] \<and> list_all is_digit ip \<and> is_digit d1 \<and> is_digit d2
                    \<and> digits_value (ip @ [d1, d2]) = nat (round_half_even (q * 100))
                    \<and> \<bar>of_nat (digits_value (ip @ [d1, d2])) / 100 - q\<bar> \<le> 1 / 200))
           \<and> (a = NaN \<longrightarrow> format_2f a = ''nan'')
           \<and> (\<forall>neg. a = Infinity neg \<longrightarrow> format_2f a = (if neg then ''-inf'' else ''inf''))"
proof -
  from transform_raw[OF assms(1,2)] obtain out s where
    out: "list_all2 (\<lambda>t t'. add_fields t = Inr t') transactions out"
    and tr: "transform transactions = Inr (WithSummary out s)"
    by blast
  have af: "add_fields (transactions ! i) = Inr (out ! i)"
    using list_all2_nthD[OF out assms(3)] .
  from assms(2,3) have "raw_record (transactions ! i)" by (simp add: list_all_length)
  then obtain ts where ts: "map_of (transactions ! i) ''timestamp'' = Some (Str ts)"
    by (auto elim: raw_recordE)
  have usd: "map_of (out ! i) ''amount_usd'' = Some (Str (''$'' @ format_2f a))"
    using add_fields_amount_usd[OF af assms(4) ts] .
  have fin: "\<exists>ip d1 d2. format_2f a = (if neg then ''-'' else '''') @ ip @ ''.'' @ [d1, d2]
                    \<and> ip \<noteq> [] \<and> list_all is_digit ip \<and> is_digit d1 \<and> is_digit d2
                    \<and> digits_value (ip @ [d1, d2]) = nat (round_half_even (q * 100))
                    \<and> \<bar>of_nat (digits_value (ip @ [d1, d2])) / 100 - q\<bar> \<le> 1 / 200"
    if "a = Finite neg q" for neg q
    using format_2f_finite[of q neg] assms(5) that by simp
  show ?thesis
    apply (rule exI[of _ out], rule exI[of _ s])
    using tr usd fin by auto
qed

theorem amount_usd_formatted_witness:
  "\<exists>out s. transform scenario = Inr (WithSummary out s)
           \<and> map_of (out ! 0) ''amount_usd'' = Some (Str ''$10.00'')"
proof -
  have i: "(0::nat) < length scenario" by (simp add: scenario_def)
  have a: "map_of (scenario ! 0) ''amount'' = Some (Num (Finite False 10))"
    by (simp add: scenario_def raw_def)
  have m: "magnitude_ok (Finite False 10)" by simp
  have f: "format_2f (Finite False 10) = ''10.00''"
    by (simp add: round_half_even_def decimal.simps zero_pad_def digit_char_def char_of_eq_iff)
  from amount_usd_formatted[OF scenario_nonempty scenario_all_raw i a m] show ?thesis
    unfolding f by auto
qed

end
